theory Spec2Isabelle
  imports Complex_Main
begin

section \<open>JavaScript values of the keyframe editor\<close>

text \<open>
  The editor page exists in four variants under \<^verbatim>\<open>src/\<close>: the named file
  \<^verbatim>\<open>src/src/pages/Animate.tsx\<close>, the file \<^verbatim>\<open>src/unnamed/part_000\<close>, and the two
  documents held by \<^verbatim>\<open>src/unnamed/part_001\<close> (lines 1-260 and lines 260-486). Every
  operation below takes the variant and follows that variant's text.
\<close>

datatype variant = Pages_Animate | Part_000 | Part_001_first | Part_001_second

text \<open>
  A JavaScript number. The editor only stores, copies, floors and compares numbers, and
  these operations are exact on finite doubles, so a finite number is its real value
  (\<open>-0\<close> is not told apart from \<open>0\<close>).
\<close>

datatype jsnum = Finite real | NaN | PosInf | NegInf

fun Math_floor :: "jsnum \<Rightarrow> jsnum" where
  "Math_floor (Finite r) = Finite (of_int \<lfloor>r\<rfloor>)"
| "Math_floor v = v"

fun Math_max :: "jsnum \<Rightarrow> jsnum \<Rightarrow> jsnum" where
  "Math_max NaN _ = NaN"
| "Math_max _ NaN = NaN"
| "Math_max PosInf _ = PosInf"
| "Math_max _ PosInf = PosInf"
| "Math_max NegInf b = b"
| "Math_max a NegInf = a"
| "Math_max (Finite r) (Finite t) = Finite (max r t)"

datatype js_error = TypeError | LibraryError string

text \<open>
  The remainder \<^verbatim>\<open>a % n\<close> of an integer by an array length: it takes the sign of the
  dividend, and is \<open>NaN\<close> (here \<open>None\<close>) when the length is 0.
\<close>

definition js_rem :: "int \<Rightarrow> nat \<Rightarrow> int option" where
  "js_rem a n = (if n = 0 then None else Some (sgn a * (\<bar>a\<bar> mod int n)))"

subsection \<open>Arrays\<close>

text \<open>
  A JavaScript array: its index slots (a slot may be a hole, or hold \<^verbatim>\<open>undefined\<close>)
  and the properties stored under keys that are no array index (a negative integer).
  Indices are integers. The length limit of arrays (an index from \<open>2^32 - 1\<close> on is a
  property, not a slot) and the rounding of integers from \<open>2^53\<close> on are not modelled.
\<close>

datatype 'a slot = Hole | Undefined | Elem 'a

record 'a jsarray =
  slots :: "'a slot list"
  props :: "int \<rightharpoonup> 'a"

definition array_length :: "'a jsarray \<Rightarrow> nat" where
  "array_length a = length (slots a)"

text \<open>\<^verbatim>\<open>a[i]\<close>: \<open>None\<close> is \<^verbatim>\<open>undefined\<close>.\<close>

definition array_get :: "'a jsarray \<Rightarrow> int \<Rightarrow> 'a option" where
  "array_get a i =
     (if 0 \<le> i then
        (if i < int (length (slots a))
         then (case slots a ! nat i of Elem v \<Rightarrow> Some v | _ \<Rightarrow> None)
         else None)
      else props a i)"

text \<open>\<^verbatim>\<open>a[i] = v\<close>: a write past the end extends the array and leaves holes.\<close>

definition array_set :: "'a jsarray \<Rightarrow> int \<Rightarrow> 'a \<Rightarrow> 'a jsarray" where
  "array_set a i v =
     (if i < 0 then a\<lparr>props := (props a)(i \<mapsto> v)\<rparr>
      else if i < int (length (slots a)) then a\<lparr>slots := (slots a)[nat i := Elem v]\<rparr>
      else a\<lparr>slots := slots a @ replicate (nat i - length (slots a)) Hole @ [Elem v]\<rparr>)"

text \<open>
  The elements that \<^verbatim>\<open>...a\<close> spreads into an array literal: the index slots in
  order, a hole read as \<^verbatim>\<open>undefined\<close>; other properties are not copied.
\<close>

definition spread_array :: "'a jsarray \<Rightarrow> 'a slot list" where
  "spread_array a = map (\<lambda>s. case s of Hole \<Rightarrow> Undefined | _ \<Rightarrow> s) (slots a)"

definition array_literal :: "'a slot list \<Rightarrow> 'a jsarray" where
  "array_literal xs = \<lparr>slots = xs, props = Map.empty\<rparr>"

text \<open>
  \<^verbatim>\<open>a.map(cb)\<close>: holes are skipped and stay holes, the callback sees \<^verbatim>\<open>undefined\<close>
  (\<open>None\<close>) at a slot that holds it, and the first exception ends the call.
\<close>

fun map_slots :: "('a option \<Rightarrow> js_error + 'b) \<Rightarrow> 'a slot list \<Rightarrow> js_error + 'b slot list" where
  "map_slots cb [] = Inr []"
| "map_slots cb (Hole # xs) =
     (case map_slots cb xs of Inl e \<Rightarrow> Inl e | Inr ys \<Rightarrow> Inr (Hole # ys))"
| "map_slots cb (Undefined # xs) =
     (case cb None of Inl e \<Rightarrow> Inl e
      | Inr y \<Rightarrow> (case map_slots cb xs of Inl e \<Rightarrow> Inl e | Inr ys \<Rightarrow> Inr (Elem y # ys)))"
| "map_slots cb (Elem v # xs) =
     (case cb (Some v) of Inl e \<Rightarrow> Inl e
      | Inr y \<Rightarrow> (case map_slots cb xs of Inl e \<Rightarrow> Inl e | Inr ys \<Rightarrow> Inr (Elem y # ys)))"

definition array_map :: "('a option \<Rightarrow> js_error + 'b) \<Rightarrow> 'a jsarray \<Rightarrow> js_error + 'b jsarray" where
  "array_map cb a = (case map_slots cb (slots a) of Inl e \<Rightarrow> Inl e | Inr ys \<Rightarrow> Inr (array_literal ys))"

subsection \<open>Keyframes\<close>

text \<open>
  \<^verbatim>\<open>interface KeyFrame\<close>: an object with the five joints, each an object with the
  three axes. A property that is absent (or \<^verbatim>\<open>undefined\<close>) is \<open>None\<close>, so the objects
  the code can build outside the interface (\<^verbatim>\<open>{}\<close>) are values of the model too.
\<close>

datatype joint = head | left_arm | right_arm | left_leg | right_leg

datatype axis = axis_x | axis_y | axis_z

type_synonym angles = "axis \<rightharpoonup> jsnum"

type_synonym KeyFrame = "joint \<rightharpoonup> angles"

definition zero_angles :: angles where
  "zero_angles = [axis_x \<mapsto> Finite 0, axis_y \<mapsto> Finite 0, axis_z \<mapsto> Finite 0]"

definition defaultFrame :: KeyFrame where
  "defaultFrame =
     [head \<mapsto> zero_angles, left_arm \<mapsto> zero_angles, right_arm \<mapsto> zero_angles,
      left_leg \<mapsto> zero_angles, right_leg \<mapsto> zero_angles]"

text \<open>\<^verbatim>\<open>{ ...o }\<close>: the properties of \<open>o\<close>, none when \<open>o\<close> is \<^verbatim>\<open>undefined\<close>.\<close>

definition spread_object :: "('k \<rightharpoonup> 'v) option \<Rightarrow> ('k \<rightharpoonup> 'v)" where
  "spread_object ob = (case ob of None \<Rightarrow> Map.empty | Some m \<Rightarrow> m)"

text \<open>The angle stored for one axis of one joint of the keyframe at index \<open>i\<close>.\<close>

definition angle_at :: "KeyFrame jsarray \<Rightarrow> int \<Rightarrow> joint \<Rightarrow> axis \<Rightarrow> jsnum option" where
  "angle_at fs i part ax =
     (case array_get fs i of None \<Rightarrow> None
      | Some f \<Rightarrow> (case f part of None \<Rightarrow> None | Some g \<Rightarrow> g ax))"

section \<open>Editor state\<close>

text \<open>The five \<^verbatim>\<open>useState\<close> cells of \<^verbatim>\<open>Animate\<close>.\<close>

record editor =
  frames :: "KeyFrame jsarray"
  currentFrame :: int
  animationName :: string
  interval :: jsnum
  isPlaying :: bool

definition initial_editor :: editor where
  "initial_editor =
     \<lparr>frames = array_literal [Elem defaultFrame], currentFrame = 0,
      animationName = ''wave'', interval = Finite 10, isPlaying = False\<rparr>"

text \<open>
  \<^verbatim>\<open>addKeyFrame\<close>. Animate.tsx and part_000 append \<^verbatim>\<open>{ ...frames[currentFrame] }\<close>;
  part_001 appends \<^verbatim>\<open>{ ...frames[currentFrame] || defaultFrame }\<close>.
\<close>

definition addKeyFrame :: "variant \<Rightarrow> editor \<Rightarrow> editor" where
  "addKeyFrame v s =
     (let copied =
            (case v of
               Pages_Animate \<Rightarrow> spread_object (array_get (frames s) (currentFrame s))
             | Part_000 \<Rightarrow> spread_object (array_get (frames s) (currentFrame s))
             | _ \<Rightarrow> spread_object (Some (case array_get (frames s) (currentFrame s) of
                                            None \<Rightarrow> defaultFrame | Some f \<Rightarrow> f)))
      in s\<lparr>frames := array_literal (spread_array (frames s) @ [Elem copied]),
            currentFrame := int (array_length (frames s))\<rparr>)"

text \<open>
  The assignment \<^verbatim>\<open>newFrames[currentFrame] = { ...newFrames[currentFrame], [part]:
  { ...newFrames[currentFrame][part], [axis]: value } }\<close> shared by all variants: reading
  \<^verbatim>\<open>[part]\<close> of \<^verbatim>\<open>undefined\<close> throws.
\<close>

definition assign_axis ::
  "KeyFrame jsarray \<Rightarrow> int \<Rightarrow> joint \<Rightarrow> axis \<Rightarrow> jsnum \<Rightarrow> js_error + KeyFrame jsarray" where
  "assign_axis newFrames i part ax val =
     (case array_get newFrames i of
        None \<Rightarrow> Inl TypeError
      | Some f \<Rightarrow>
          Inr (array_set newFrames i
                 ((spread_object (Some f))(part \<mapsto> (spread_object (f part))(ax \<mapsto> val)))))"

text \<open>
  \<^verbatim>\<open>updateCurrentFrame\<close>. part_001 first stores \<^verbatim>\<open>{ ...defaultFrame }\<close> where
  \<^verbatim>\<open>newFrames[currentFrame]\<close> is falsy; the other variants do not. An exception leaves
  the handler before \<^verbatim>\<open>setFrames\<close>.
\<close>

definition updateCurrentFrame ::
  "variant \<Rightarrow> joint \<Rightarrow> axis \<Rightarrow> jsnum \<Rightarrow> editor \<Rightarrow> js_error + editor" where
  "updateCurrentFrame v part ax val s =
     (let newFrames = array_literal (spread_array (frames s));
          newFrames' =
            (case v of
               Pages_Animate \<Rightarrow> newFrames
             | Part_000 \<Rightarrow> newFrames
             | _ \<Rightarrow> (if array_get newFrames (currentFrame s) = None
                     then array_set newFrames (currentFrame s) (spread_object (Some defaultFrame))
                     else newFrames))
      in case assign_axis newFrames' (currentFrame s) part ax val of
           Inl e \<Rightarrow> Inl e
         | Inr fs \<Rightarrow> Inr (s\<lparr>frames := fs\<rparr>))"

text \<open>
  The pose handed to the renderer and to the joint panel. Animate.tsx and part_001 use
  \<^verbatim>\<open>currentFrameData = frames[currentFrame] || defaultFrame\<close>; part_000 passes
  \<^verbatim>\<open>frames[currentFrame]\<close> itself, and \<^verbatim>\<open>Object.entries\<close> of \<^verbatim>\<open>undefined\<close> throws
  while rendering.
\<close>

definition currentFrameData :: "variant \<Rightarrow> editor \<Rightarrow> js_error + KeyFrame" where
  "currentFrameData v s =
     (case v of
        Part_000 \<Rightarrow>
          (case array_get (frames s) (currentFrame s) of
             None \<Rightarrow> Inl TypeError | Some f \<Rightarrow> Inr f)
      | _ \<Rightarrow>
          (case array_get (frames s) (currentFrame s) of
             None \<Rightarrow> Inr defaultFrame | Some f \<Rightarrow> Inr f))"

text \<open>
  What \<^verbatim>\<open>ArmorStand\<close> reads of its \<^verbatim>\<open>frame\<close> in \<^verbatim>\<open>useFrame\<close>: the three angles of the
  five joints, \<^verbatim>\<open>frame.head.x\<close> first. Reading an axis of a joint that is
  \<^verbatim>\<open>undefined\<close> throws. The conversion to radians is floating-point arithmetic and is
  left out.
\<close>

definition read_joint :: "KeyFrame \<Rightarrow> joint \<Rightarrow> js_error + (jsnum option \<times> jsnum option \<times> jsnum option)" where
  "read_joint f part =
     (case f part of None \<Rightarrow> Inl TypeError
      | Some g \<Rightarrow> Inr (g axis_x, g axis_y, g axis_z))"

fun read_joints :: "KeyFrame \<Rightarrow> joint list \<Rightarrow> js_error + (jsnum option \<times> jsnum option \<times> jsnum option) list" where
  "read_joints f [] = Inr []"
| "read_joints f (p # ps) =
     (case read_joint f p of Inl e \<Rightarrow> Inl e
      | Inr r \<Rightarrow> (case read_joints f ps of Inl e \<Rightarrow> Inl e | Inr rs \<Rightarrow> Inr (r # rs)))"

definition ArmorStand_angles :: "KeyFrame \<Rightarrow> js_error + (jsnum option \<times> jsnum option \<times> jsnum option) list" where
  "ArmorStand_angles f = read_joints f [head, left_arm, right_arm, left_leg, right_leg]"

text \<open>One render of the page: the pose is chosen, then the renderer reads it.\<close>

definition render :: "variant \<Rightarrow> editor \<Rightarrow> js_error + (jsnum option \<times> jsnum option \<times> jsnum option) list" where
  "render v s = (case currentFrameData v s of Inl e \<Rightarrow> Inl e | Inr f \<Rightarrow> ArmorStand_angles f)"

section \<open>Export\<close>

text \<open>The object \<^verbatim>\<open>{ animations: { [animationName]: { interval, loop, steps } } }\<close>.\<close>

record animation_entry =
  entry_interval :: jsnum
  entry_loop :: bool
  entry_steps :: "KeyFrame jsarray"

record document =
  animations :: "(string \<times> animation_entry) list"

text \<open>\<^verbatim>\<open>{ x: a.x, y: a.y, z: a.z }\<close>\<close>

definition copy_xyz :: "angles \<Rightarrow> angles" where
  "copy_xyz g = (\<lambda>ax. case ax of axis_x \<Rightarrow> g axis_x | axis_y \<Rightarrow> g axis_y | axis_z \<Rightarrow> g axis_z)"

text \<open>
  The callback of \<^verbatim>\<open>frames.map\<close> in part_001. The first document copies the three
  axes of each joint by name, so a missing joint throws; the second spreads each joint.
  Both throw on a frame that is \<^verbatim>\<open>undefined\<close>.
\<close>

definition cleaned_frame :: "variant \<Rightarrow> KeyFrame option \<Rightarrow> js_error + KeyFrame" where
  "cleaned_frame v fr =
     (case fr of
        None \<Rightarrow> Inl TypeError
      | Some f \<Rightarrow>
          (case v of
             Part_001_first \<Rightarrow>
               (case (f head, f left_arm, f right_arm, f left_leg, f right_leg) of
                  (Some h, Some la, Some ra, Some ll, Some rl) \<Rightarrow>
                    Inr [head \<mapsto> copy_xyz h, left_arm \<mapsto> copy_xyz la, right_arm \<mapsto> copy_xyz ra,
                         left_leg \<mapsto> copy_xyz ll, right_leg \<mapsto> copy_xyz rl]
                | _ \<Rightarrow> Inl TypeError)
           | _ \<Rightarrow>
               Inr [head \<mapsto> spread_object (f head), left_arm \<mapsto> spread_object (f left_arm),
                    right_arm \<mapsto> spread_object (f right_arm), left_leg \<mapsto> spread_object (f left_leg),
                    right_leg \<mapsto> spread_object (f right_leg)]))"

text \<open>
  The object built by \<^verbatim>\<open>exportAnimation\<close> before it is serialised. Animate.tsx and
  part_000 store \<^verbatim>\<open>interval\<close> and \<^verbatim>\<open>frames\<close> as they are; part_001 stores
  \<^verbatim>\<open>Math.max(1, Math.floor(interval))\<close> and the cleaned frames.
\<close>

definition export_document :: "variant \<Rightarrow> editor \<Rightarrow> js_error + document" where
  "export_document v s =
     (case v of
        Pages_Animate \<Rightarrow>
          Inr \<lparr>animations = [(animationName s,
                 \<lparr>entry_interval = interval s, entry_loop = True, entry_steps = frames s\<rparr>)]\<rparr>
      | Part_000 \<Rightarrow>
          Inr \<lparr>animations = [(animationName s,
                 \<lparr>entry_interval = interval s, entry_loop = True, entry_steps = frames s\<rparr>)]\<rparr>
      | _ \<Rightarrow>
          (case array_map (cleaned_frame v) (frames s) of
             Inl e \<Rightarrow> Inl e
           | Inr cleanedFrames \<Rightarrow>
               Inr \<lparr>animations = [(animationName s,
                      \<lparr>entry_interval = Math_max (Finite 1) (Math_floor (interval s)),
                       entry_loop = True, entry_steps = cleanedFrames\<rparr>)]\<rparr>))"

text \<open>
  The file name of the download: \<^verbatim>\<open>'animations.yml'\<close> in the first document of
  part_001, the animation name with \<^verbatim>\<open>.yml\<close> in the other variants.
\<close>

definition download_name :: "variant \<Rightarrow> editor \<Rightarrow> string" where
  "download_name v s = (case v of Part_001_first \<Rightarrow> ''animations.yml'' | _ \<Rightarrow> animationName s @ ''.yml'')"

text \<open>Only part_001 has the \<^verbatim>\<open>try\<close> around the body of \<^verbatim>\<open>exportAnimation\<close>.\<close>

definition catches_export_errors :: "variant \<Rightarrow> bool" where
  "catches_export_errors v = (case v of Part_001_first \<Rightarrow> True | Part_001_second \<Rightarrow> True | _ \<Rightarrow> False)"

section \<open>The page and its environment\<close>

text \<open>
  The closure \<^verbatim>\<open>animate\<close> made by one call of \<^verbatim>\<open>playAnimation\<close>: its own variable
  \<^verbatim>\<open>frameIndex\<close> and the \<^verbatim>\<open>frames\<close> of the render in which it was made.
\<close>

record animate_closure =
  frameIndex :: int
  closure_frames :: "KeyFrame jsarray"

text \<open>
  The editor state together with \<^verbatim>\<open>animationRef.current\<close>, the browser's list of
  pending animation-frame callbacks with their handles, and what the page has emitted:
  downloads (file name and text) and the entries of the browser console. The console
  receives the calls of \<^verbatim>\<open>console.error\<close>, and the browser reports there an exception
  that leaves an event handler uncaught.
\<close>

datatype console_entry = Console_error js_error | Uncaught_exception js_error

record world =
  ed :: editor
  animationRef :: "nat option"
  raf_pending :: "(nat \<times> animate_closure) list"
  raf_last :: nat
  downloads :: "(string \<times> string) list"
  console :: "console_entry list"

definition initial_world :: world where
  "initial_world =
     \<lparr>ed = initial_editor, animationRef = None, raf_pending = [], raf_last = 0,
      downloads = [], console = []\<rparr>"

text \<open>
  \<^verbatim>\<open>requestAnimationFrame\<close> returns a fresh handle greater than zero and queues the
  callback; \<^verbatim>\<open>cancelAnimationFrame\<close> removes the callback with that handle.
\<close>

definition requestAnimationFrame :: "animate_closure \<Rightarrow> world \<Rightarrow> nat \<times> world" where
  "requestAnimationFrame cl w =
     (let h = raf_last w + 1
      in (h, w\<lparr>raf_pending := raf_pending w @ [(h, cl)], raf_last := h\<rparr>))"

definition cancelAnimationFrame :: "nat \<Rightarrow> world \<Rightarrow> world" where
  "cancelAnimationFrame h w = w\<lparr>raf_pending := filter (\<lambda>(h', cl). h' \<noteq> h) (raf_pending w)\<rparr>"

text \<open>
  The statements of \<^verbatim>\<open>exportAnimation\<close> up to the serialisation: the object is built
  and handed to \<^verbatim>\<open>yaml.dump\<close> of the library js-yaml, the parameter \<open>dump\<close> (\<open>Inl\<close>
  when it throws).
\<close>

definition export_text :: "variant \<Rightarrow> (document \<Rightarrow> js_error + string) \<Rightarrow> editor \<Rightarrow> js_error + string" where
  "export_text v dump s =
     (case export_document v s of Inl e \<Rightarrow> Inl e | Inr animation \<Rightarrow> dump animation)"

text \<open>
  \<^verbatim>\<open>exportAnimation\<close>. The browser calls that follow the serialisation (the blob, the
  object URL, the click on the anchor) are one download of the text under the file name.
  part_001 wraps the body in \<^verbatim>\<open>try\<close> and reports the exception with
  \<^verbatim>\<open>console.error\<close>; in Animate.tsx and part_000 it leaves the handler. No variant
  calls a state setter.
\<close>

definition exportAnimation :: "variant \<Rightarrow> (document \<Rightarrow> js_error + string) \<Rightarrow> world \<Rightarrow> world" where
  "exportAnimation v dump w =
     (case export_text v dump (ed w) of
        Inr yamlStr \<Rightarrow> w\<lparr>downloads := downloads w @ [(download_name v (ed w), yamlStr)]\<rparr>
      | Inl e \<Rightarrow>
          (if catches_export_errors v
           then w\<lparr>console := console w @ [Console_error e]\<rparr>
           else w\<lparr>console := console w @ [Uncaught_exception e]\<rparr>))"

text \<open>\<^verbatim>\<open>playAnimation\<close>, the same text in all variants.\<close>

definition playAnimation :: "world \<Rightarrow> world" where
  "playAnimation w =
     (if isPlaying (ed w) then
        (let w1 = (case animationRef w of
                     None \<Rightarrow> w
                   | Some h \<Rightarrow> (if h \<noteq> 0 then cancelAnimationFrame h w else w))
         in w1\<lparr>ed := (ed w1)\<lparr>isPlaying := False\<rparr>\<rparr>)
      else
        (let w1 = w\<lparr>ed := (ed w)\<lparr>isPlaying := True\<rparr>\<rparr>;
             cl = \<lparr>frameIndex = currentFrame (ed w), closure_frames = frames (ed w)\<rparr>;
             (h, w2) = requestAnimationFrame cl w1
         in w2\<lparr>animationRef := Some h\<rparr>))"

text \<open>
  One call of the closure \<^verbatim>\<open>animate\<close>. The index type of the model is \<open>int\<close>, so the
  call has no result (\<open>None\<close>) where \<^verbatim>\<open>% frames.length\<close> would give \<open>NaN\<close>.
\<close>

definition animate :: "animate_closure \<Rightarrow> world \<Rightarrow> world option" where
  "animate cl w =
     (case js_rem (frameIndex cl + 1) (array_length (closure_frames cl)) of
        None \<Rightarrow> None
      | Some k \<Rightarrow>
          (let w1 = w\<lparr>ed := (ed w)\<lparr>currentFrame := k\<rparr>\<rparr>;
               (h, w2) = requestAnimationFrame (cl\<lparr>frameIndex := k\<rparr>) w1
           in Some (w2\<lparr>animationRef := Some h\<rparr>)))"

fun run_callbacks :: "(nat \<times> animate_closure) list \<Rightarrow> world \<Rightarrow> world option" where
  "run_callbacks [] w = Some w"
| "run_callbacks ((h, cl) # cbs) w =
     (case animate cl w of None \<Rightarrow> None | Some w' \<Rightarrow> run_callbacks cbs w')"

text \<open>A display refresh runs the callbacks that were pending when it began.\<close>

definition refresh :: "world \<Rightarrow> world option" where
  "refresh w = run_callbacks (raf_pending w) (w\<lparr>raf_pending := []\<rparr>)"

text \<open>
  The events of the page. A handler runs on the state of the last render, and the page
  renders again after every event, so an event is one step from state to state. A
  number event carries \<^verbatim>\<open>Number(e.target.value)\<close> or the slider's value. The interval
  field stores it as it is in Animate.tsx and part_000, and \<^verbatim>\<open>Math.max(1, ...)\<close> of
  it in part_001. An exception that leaves a handler leaves the state as it was.
\<close>

datatype event =
    Click_addKeyFrame
  | Change_angle joint axis jsnum
  | Change_timeline int
  | Change_name string
  | Change_interval jsnum
  | Click_export
  | Click_play
  | Display_refresh

definition step :: "variant \<Rightarrow> (document \<Rightarrow> js_error + string) \<Rightarrow> event \<Rightarrow> world \<Rightarrow> world option" where
  "step v dump e w =
     (case e of
        Click_addKeyFrame \<Rightarrow> Some (w\<lparr>ed := addKeyFrame v (ed w)\<rparr>)
      | Change_angle part ax val \<Rightarrow>
          (case updateCurrentFrame v part ax val (ed w) of
             Inl err \<Rightarrow> Some (w\<lparr>console := console w @ [Uncaught_exception err]\<rparr>)
           | Inr s \<Rightarrow> Some (w\<lparr>ed := s\<rparr>))
      | Change_timeline i \<Rightarrow> Some (w\<lparr>ed := (ed w)\<lparr>currentFrame := i\<rparr>\<rparr>)
      | Change_name n \<Rightarrow> Some (w\<lparr>ed := (ed w)\<lparr>animationName := n\<rparr>\<rparr>)
      | Change_interval x \<Rightarrow>
          Some (w\<lparr>ed := (ed w)\<lparr>interval :=
                  (case v of Pages_Animate \<Rightarrow> x | Part_000 \<Rightarrow> x | _ \<Rightarrow> Math_max (Finite 1) x)\<rparr>\<rparr>)
      | Click_export \<Rightarrow> Some (exportAnimation v dump w)
      | Click_play \<Rightarrow> Some (playAnimation w)
      | Display_refresh \<Rightarrow> refresh w)"

text \<open>
  A sequence of events. The page stores whatever its widgets deliver: no handler checks
  a value.
\<close>

fun run :: "variant \<Rightarrow> (document \<Rightarrow> js_error + string) \<Rightarrow> event list \<Rightarrow> world \<Rightarrow> world option" where
  "run v dump [] w = Some w"
| "run v dump (e # es) w =
     (case step v dump e w of None \<Rightarrow> None | Some w' \<Rightarrow> run v dump es w')"

text \<open>The states the page can reach from its initial state, by any events.\<close>

inductive reachable :: "variant \<Rightarrow> (document \<Rightarrow> js_error + string) \<Rightarrow> world \<Rightarrow> bool"
  for v :: variant and dump :: "document \<Rightarrow> js_error + string" where
  reachable_initial: "reachable v dump initial_world"
| reachable_step:
    "reachable v dump w \<Longrightarrow> step v dump e w = Some w' \<Longrightarrow> reachable v dump w'"

section \<open>Invariants of the page\<close>



text \<open>
  While playing, exactly one callback is pending: the one whose handle
  \<^verbatim>\<open>animationRef.current\<close> holds, with a non-empty snapshot of the keyframes. While
  stopped none is.
\<close>

definition playback_inv :: "world \<Rightarrow> bool" where
  "playback_inv w =
     (if isPlaying (ed w)
      then (\<exists>cl. raf_pending w = [(raf_last w, cl)] \<and> animationRef w = Some (raf_last w) \<and>
                 0 < raf_last w \<and> 0 < array_length (closure_frames cl))
      else raf_pending w = [])"

text \<open>
  The stopped page that holds the keyframes \<open>fs\<close> with the active index \<open>i\<close>, nothing
  pending and nothing emitted.
\<close>

definition page_with :: "KeyFrame list \<Rightarrow> int \<Rightarrow> world" where
  "page_with fs i =
     initial_world\<lparr>ed := initial_editor\<lparr>frames := array_literal (map Elem fs), currentFrame := i\<rparr>\<rparr>"

section \<open>The keyframe objects in the store\<close>

text \<open>
  Keyframes and their joints are JavaScript objects, held by reference: the spread
  \<^verbatim>\<open>{ ...frame }\<close> makes a new keyframe object whose joints are the same angle
  objects as those of \<open>frame\<close>. The store is the list of all objects made so far, an
  object's reference is its position, and a new object is appended. No statement of the
  page writes to a keyframe or angle object after the literal that makes it.
\<close>

type_synonym ref = nat

datatype cell = Angles_cell angles | Frame_cell "joint \<rightharpoonup> ref"

type_synonym heap = "cell list"

definition alloc :: "heap \<Rightarrow> cell \<Rightarrow> ref \<times> heap" where
  "alloc h c = (length h, h @ [c])"

text \<open>The properties of the keyframe object, and of the angle object, at a reference.\<close>

definition frame_fields :: "heap \<Rightarrow> ref \<Rightarrow> (joint \<rightharpoonup> ref)" where
  "frame_fields h r =
     (if r < length h then (case h ! r of Frame_cell m \<Rightarrow> m | _ \<Rightarrow> Map.empty) else Map.empty)"

definition angle_fields :: "heap \<Rightarrow> ref \<Rightarrow> angles" where
  "angle_fields h r =
     (if r < length h then (case h ! r of Angles_cell g \<Rightarrow> g | _ \<Rightarrow> Map.empty) else Map.empty)"

text \<open>
  The store with the references the state variable \<^verbatim>\<open>frames\<close> holds and
  \<^verbatim>\<open>currentFrame\<close>.
\<close>

record heap_editor =
  store :: heap
  frame_refs :: "ref jsarray"
  current :: int

text \<open>
  The module constant \<^verbatim>\<open>defaultFrame\<close>: five angle objects and the keyframe object
  that holds them, which is also the one element of the initial \<^verbatim>\<open>frames\<close>.
\<close>

definition defaultFrame_ref :: ref where
  "defaultFrame_ref = 5"

definition initial_heap_editor :: heap_editor where
  "initial_heap_editor =
     \<lparr>store = [Angles_cell zero_angles, Angles_cell zero_angles, Angles_cell zero_angles,
               Angles_cell zero_angles, Angles_cell zero_angles,
               Frame_cell [head \<mapsto> 0, left_arm \<mapsto> 1, right_arm \<mapsto> 2, left_leg \<mapsto> 3, right_leg \<mapsto> 4]],
      frame_refs = array_literal [Elem defaultFrame_ref], current = 0\<rparr>"

text \<open>\<^verbatim>\<open>addKeyFrame\<close> on the store: the copy is one new keyframe object.\<close>

definition heap_addKeyFrame :: "variant \<Rightarrow> heap_editor \<Rightarrow> heap_editor" where
  "heap_addKeyFrame v hs =
     (let src = array_get (frame_refs hs) (current hs);
          fields =
            (case v of
               Pages_Animate \<Rightarrow> (case src of None \<Rightarrow> Map.empty | Some r \<Rightarrow> frame_fields (store hs) r)
             | Part_000 \<Rightarrow> (case src of None \<Rightarrow> Map.empty | Some r \<Rightarrow> frame_fields (store hs) r)
             | _ \<Rightarrow> frame_fields (store hs) (case src of None \<Rightarrow> defaultFrame_ref | Some r \<Rightarrow> r));
          (copied, h') = alloc (store hs) (Frame_cell fields)
      in hs\<lparr>store := h',
             frame_refs := array_literal (spread_array (frame_refs hs) @ [Elem copied]),
             current := int (array_length (frame_refs hs))\<rparr>)"

text \<open>
  The assignment of \<^verbatim>\<open>updateCurrentFrame\<close> on the store: a new angle object and a
  new keyframe object; the array slot is the only thing written.
\<close>

definition heap_assign_axis ::
  "heap \<Rightarrow> ref jsarray \<Rightarrow> int \<Rightarrow> joint \<Rightarrow> axis \<Rightarrow> jsnum \<Rightarrow> js_error + heap \<times> ref jsarray" where
  "heap_assign_axis h newFrames i part ax val =
     (case array_get newFrames i of
        None \<Rightarrow> Inl TypeError
      | Some r \<Rightarrow>
          (let inner = (case frame_fields h r part of None \<Rightarrow> Map.empty | Some ra \<Rightarrow> angle_fields h ra);
               (new_angles, h1) = alloc h (Angles_cell (inner(ax \<mapsto> val)));
               (new_frame, h2) = alloc h1 (Frame_cell ((frame_fields h r)(part \<mapsto> new_angles)))
           in Inr (h2, array_set newFrames i new_frame)))"

text \<open>\<^verbatim>\<open>updateCurrentFrame\<close> on the store.\<close>

definition heap_updateCurrentFrame ::
  "variant \<Rightarrow> joint \<Rightarrow> axis \<Rightarrow> jsnum \<Rightarrow> heap_editor \<Rightarrow> js_error + heap_editor" where
  "heap_updateCurrentFrame v part ax val hs =
     (let newFrames = array_literal (spread_array (frame_refs hs));
          (h1, newFrames') =
            (case v of
               Pages_Animate \<Rightarrow> (store hs, newFrames)
             | Part_000 \<Rightarrow> (store hs, newFrames)
             | _ \<Rightarrow> (if array_get newFrames (current hs) = None
                     then (let (d, h') = alloc (store hs) (Frame_cell (frame_fields (store hs) defaultFrame_ref))
                           in (h', array_set newFrames (current hs) d))
                     else (store hs, newFrames)))
      in case heap_assign_axis h1 newFrames' (current hs) part ax val of
           Inl e \<Rightarrow> Inl e
         | Inr (h2, fs) \<Rightarrow> Inr (hs\<lparr>store := h2, frame_refs := fs\<rparr>))"

text \<open>The keyframe value behind a reference, and the array of values behind an array of references.\<close>

definition frame_value :: "heap \<Rightarrow> ref \<Rightarrow> KeyFrame" where
  "frame_value h r =
     (\<lambda>part. case frame_fields h r part of None \<Rightarrow> None | Some ra \<Rightarrow> Some (angle_fields h ra))"

definition array_value :: "heap \<Rightarrow> ref jsarray \<Rightarrow> KeyFrame jsarray" where
  "array_value h a =
     \<lparr>slots = map (map_slot (frame_value h)) (slots a),
      props = (\<lambda>i. map_option (frame_value h) (props a i))\<rparr>"

text \<open>
  A reference to a keyframe object of the store whose joints are references to angle
  objects of the store.
\<close>

definition frame_ref_ok :: "heap \<Rightarrow> ref \<Rightarrow> bool" where
  "frame_ref_ok h r =
     (r < length h \<and>
      (case h ! r of
         Frame_cell m \<Rightarrow>
           list_all (\<lambda>part. case m part of None \<Rightarrow> True
                       | Some ra \<Rightarrow> ra < length h \<and> (case h ! ra of Angles_cell g \<Rightarrow> True | _ \<Rightarrow> False))
             [head, left_arm, right_arm, left_leg, right_leg]
       | _ \<Rightarrow> False))"

text \<open>
  The store is well formed for a page: every reference of the array is a keyframe
  reference, and so is \<^verbatim>\<open>defaultFrame\<close>, whose value is the neutral keyframe. Any two
  keyframes may share angle objects, and two slots may hold the same keyframe object.
\<close>

definition array_refs :: "ref jsarray \<Rightarrow> ref set" where
  "array_refs a = (\<Union>s \<in> set (slots a). set_slot s) \<union> ran (props a)"

definition heap_ok :: "heap_editor \<Rightarrow> bool" where
  "heap_ok hs =
     ((\<forall>r \<in> array_refs (frame_refs hs). frame_ref_ok (store hs) r) \<and>
      frame_ref_ok (store hs) defaultFrame_ref \<and>
      frame_value (store hs) defaultFrame_ref = defaultFrame)"

text \<open>The editor state that a store state stands for.\<close>

definition abstract :: "heap_editor \<Rightarrow> editor \<Rightarrow> editor" where
  "abstract hs s = s\<lparr>frames := array_value (store hs) (frame_refs hs), currentFrame := current hs\<rparr>"

section \<open>Sequences of joint updates\<close>

text \<open>
  The page has no operation that takes a pose index: a joint of the keyframe at index
  \<open>i\<close> is updated by selecting \<open>i\<close> on the timeline and calling
  \<^verbatim>\<open>updateCurrentFrame\<close>. A sequence of such updates stops at the first exception.
\<close>

fun updateJoints :: "variant \<Rightarrow> (int \<times> joint \<times> axis \<times> jsnum) list \<Rightarrow> editor \<Rightarrow> js_error + editor" where
  "updateJoints v [] s = Inr s"
| "updateJoints v ((i, part, ax, val) # ws) s =
     (case updateCurrentFrame v part ax val (s\<lparr>currentFrame := i\<rparr>) of
        Inl e \<Rightarrow> Inl e
      | Inr s' \<Rightarrow> updateJoints v ws s')"

fun heap_updateJoints ::
  "variant \<Rightarrow> (int \<times> joint \<times> axis \<times> jsnum) list \<Rightarrow> heap_editor \<Rightarrow> js_error + heap_editor" where
  "heap_updateJoints v [] hs = Inr hs"
| "heap_updateJoints v ((i, part, ax, val) # ws) hs =
     (case heap_updateCurrentFrame v part ax val (hs\<lparr>current := i\<rparr>) of
        Inl e \<Rightarrow> Inl e
      | Inr hs' \<Rightarrow> heap_updateJoints v ws hs')"

text \<open>The value written last to an axis of a joint of a keyframe by a sequence of updates.\<close>

fun last_written :: "(int \<times> joint \<times> axis \<times> jsnum) list \<Rightarrow> int \<Rightarrow> joint \<Rightarrow> axis \<Rightarrow> jsnum option" where
  "last_written [] i part ax = None"
| "last_written ((i', part', ax', val) # ws) i part ax =
     (case last_written ws i part ax of
        Some x \<Rightarrow> Some x
      | None \<Rightarrow> (if i' = i \<and> part' = part \<and> ax' = ax then Some val else None))"

text \<open>The angle read through the store.\<close>

definition heap_angle_at :: "heap_editor \<Rightarrow> int \<Rightarrow> joint \<Rightarrow> axis \<Rightarrow> jsnum option" where
  "heap_angle_at hs = angle_at (array_value (store hs) (frame_refs hs))"

text \<open>
  The store after one click on Add Keyframe on the initial page: two keyframe objects
  that hold the same five angle objects.
\<close>

definition two_keyframes :: heap_editor where
  "two_keyframes = heap_addKeyFrame Pages_Animate initial_heap_editor"

section \<open>Facts about arrays and numbers\<close>

lemma js_rem_nonneg: "0 \<le> a \<Longrightarrow> 0 < n \<Longrightarrow> js_rem a n = Some (a mod int n)"
  by (simp add: js_rem_def sgn_if)

lemma array_get_literal:
  "array_get (array_literal (map Elem xs)) i =
     (if 0 \<le> i \<and> i < int (length xs) then Some (xs ! nat i) else None)"
  by (simp add: array_get_def array_literal_def)

lemma spread_array_literal: "spread_array (array_literal (map Elem xs)) = map Elem xs"
  by (simp add: spread_array_def array_literal_def)

lemma array_length_literal: "array_length (array_literal xs) = length xs"
  by (simp add: array_length_def array_literal_def)

lemma array_set_literal:
  "0 \<le> i \<Longrightarrow> i < int (length xs) \<Longrightarrow>
   array_set (array_literal (map Elem xs)) i v = array_literal (map Elem (xs[nat i := v]))"
  by (simp add: array_set_def array_literal_def map_update)

lemma array_get_out_of_range:
  assumes "props a = Map.empty" and "i < 0 \<or> int (array_length a) \<le> i"
  shows "array_get a i = None"
  using assms by (auto simp: array_get_def array_length_def)

section \<open>The operations on a dense keyframe array\<close>

lemma exportAnimation_ed: "ed (exportAnimation v dump w) = ed w"
  by (simp add: exportAnimation_def split: sum.splits)




lemma updateCurrentFrame_in_range:
  assumes "frames s = array_literal (map Elem fs)"
    and "0 \<le> currentFrame s" and "currentFrame s < int (length fs)"
  shows "updateCurrentFrame v part ax val s =
           Inr (s\<lparr>frames := array_literal (map Elem
                  (fs[nat (currentFrame s) :=
                        (fs ! nat (currentFrame s))
                          (part \<mapsto> (spread_object ((fs ! nat (currentFrame s)) part))(ax \<mapsto> val))]))\<rparr>)"
  using assms
  by (cases v; simp add: updateCurrentFrame_def assign_axis_def spread_array_literal
        array_get_literal array_set_literal spread_object_def)

section \<open>The invariants hold in every reachable state\<close>

lemma refresh_playing:
  assumes "raf_pending w = [(h, cl)]" and "0 < array_length (closure_frames cl)"
    and "0 \<le> frameIndex cl"
  shows "refresh w =
           Some (w\<lparr>ed := (ed w)\<lparr>currentFrame := (frameIndex cl + 1) mod int (array_length (closure_frames cl))\<rparr>,
                   raf_pending := [(raf_last w + 1,
                      cl\<lparr>frameIndex := (frameIndex cl + 1) mod int (array_length (closure_frames cl))\<rparr>)],
                   raf_last := raf_last w + 1,
                   animationRef := Some (raf_last w + 1)\<rparr>)"
  using assms
  by (simp add: refresh_def animate_def js_rem_nonneg requestAnimationFrame_def)

lemma refresh_idle: "raf_pending w = [] \<Longrightarrow> refresh w = Some w"
  by (simp add: refresh_def)

lemma run_append:
  "run v dump (es @ es') w = (case run v dump es w of None \<Rightarrow> None | Some w' \<Rightarrow> run v dump es' w')"
  by (induction es arbitrary: w) (auto split: option.splits)

lemma run_callbacks_frames:
  "run_callbacks cbs w = Some w' \<Longrightarrow> frames (ed w') = frames (ed w)"
proof (induction cbs arbitrary: w)
  case Nil
  then show ?case by simp
next
  case (Cons cb cbs)
  obtain h cl where cb: "cb = (h, cl)" by (cases cb)
  from Cons.prems obtain w1 where w1: "animate cl w = Some w1" "run_callbacks cbs w1 = Some w'"
    by (auto simp: cb split: option.splits)
  have "frames (ed w1) = frames (ed w)"
    using w1(1) by (auto simp: animate_def requestAnimationFrame_def Let_def split: option.splits)
  then show ?case using Cons.IH [OF w1(2)] by simp
qed

lemma array_set_length: "array_length a \<le> array_length (array_set a i x)"
  by (auto simp: array_set_def array_length_def)

lemma assign_axis_length:
  "assign_axis nf i part ax val = Inr fs \<Longrightarrow> array_length nf \<le> array_length fs"
  by (auto simp: assign_axis_def array_set_length split: option.splits)

lemma updateCurrentFrame_length:
  assumes "updateCurrentFrame v part ax val s = Inr s'"
  shows "array_length (frames s) \<le> array_length (frames s')"
proof -
  let ?nf = "array_literal (spread_array (frames s))"
  have len: "array_length ?nf = array_length (frames s)"
    by (simp add: array_literal_def spread_array_def array_length_def)
  from assms obtain nf' fs where nf': "nf' = ?nf \<or> (\<exists>d. nf' = array_set ?nf (currentFrame s) d)"
    and fs: "assign_axis nf' (currentFrame s) part ax val = Inr fs" and s': "s' = s\<lparr>frames := fs\<rparr>"
    by (cases v) (auto simp: updateCurrentFrame_def Let_def split: sum.splits if_splits)
  from nf' have "array_length ?nf \<le> array_length nf'"
    using array_set_length by auto
  with assign_axis_length [OF fs] len s' show ?thesis by simp
qed


lemma step_length_mono:
  assumes "step v dump e w = Some w'"
  shows "array_length (frames (ed w)) \<le> array_length (frames (ed w'))"
proof (cases e)
  case Click_addKeyFrame
  then show ?thesis using assms
    by (auto simp: step_def addKeyFrame_def Let_def array_literal_def spread_array_def array_length_def)
next
  case (Change_angle part ax val)
  have "array_length (frames (ed w)) \<le> array_length (frames s')"
    if "updateCurrentFrame v part ax val (ed w) = Inr s'" for s'
    using that by (rule updateCurrentFrame_length)
  then show ?thesis using assms Change_angle
    by (auto simp: step_def split: sum.splits)
next
  case Display_refresh
  then show ?thesis using assms run_callbacks_frames [of "raf_pending w" "w\<lparr>raf_pending := []\<rparr>" w']
    by (simp add: step_def refresh_def)
qed (use assms in \<open>auto simp: step_def exportAnimation_ed playAnimation_def Let_def
      requestAnimationFrame_def cancelAnimationFrame_def split: option.splits if_splits\<close>)

lemma step_keeps_pending:
  assumes "e \<noteq> Click_play" and "e \<noteq> Display_refresh"
  shows "\<exists>w'. step v dump e w = Some w' \<and> raf_pending w' = raf_pending w \<and>
           isPlaying (ed w') = isPlaying (ed w) \<and> animationRef w' = animationRef w \<and>
           raf_last w' = raf_last w"
proof (cases e)
  case (Change_angle part ax val)
  have "isPlaying s' = isPlaying (ed w)" if "updateCurrentFrame v part ax val (ed w) = Inr s'" for s'
    using that by (auto simp: updateCurrentFrame_def Let_def split: sum.splits)
  then show ?thesis using Change_angle by (auto simp: step_def split: sum.splits)
next
  case Click_export
  then show ?thesis by (auto simp: step_def exportAnimation_def split: sum.splits)
qed (use assms in \<open>auto simp: step_def addKeyFrame_def Let_def\<close>)

lemma refresh_any:
  assumes "raf_pending w = [(h, cl)]" and "0 < array_length (closure_frames cl)"
  shows "\<exists>k. js_rem (frameIndex cl + 1) (array_length (closure_frames cl)) = Some k \<and>
           refresh w =
             Some (w\<lparr>ed := (ed w)\<lparr>currentFrame := k\<rparr>,
                     raf_pending := [(raf_last w + 1, cl\<lparr>frameIndex := k\<rparr>)],
                     raf_last := raf_last w + 1,
                     animationRef := Some (raf_last w + 1)\<rparr>)"
  using assms
  by (simp add: refresh_def animate_def js_rem_def requestAnimationFrame_def)

text \<open>Every event has a result and keeps the playback invariant and a non-empty array.\<close>

lemma any_step:
  assumes "0 < array_length (frames (ed w))" and "playback_inv w"
  shows "\<exists>w'. step v dump e w = Some w' \<and> 0 < array_length (frames (ed w')) \<and> playback_inv w'"
proof -
  have len: "0 < array_length (frames (ed w'))" if "step v dump e w = Some w'" for w'
    using step_length_mono [OF that] assms(1) by linarith
  show ?thesis
  proof (cases "e = Click_play \<or> e = Display_refresh")
    case False
    with step_keeps_pending [of e v dump w]
    obtain w' where w': "step v dump e w = Some w'" "raf_pending w' = raf_pending w"
      "isPlaying (ed w') = isPlaying (ed w)" "animationRef w' = animationRef w"
      "raf_last w' = raf_last w"
      by blast
    then have "playback_inv w'" using assms(2) by (simp add: playback_inv_def)
    with w'(1) len show ?thesis by blast
  next
    case True
    then show ?thesis
    proof
      assume e: "e = Click_play"
      have "playback_inv (playAnimation w)"
        using assms
        by (auto simp: playAnimation_def Let_def requestAnimationFrame_def
            cancelAnimationFrame_def playback_inv_def)
      then show ?thesis using e len by (simp add: step_def)
    next
      assume e: "e = Display_refresh"
      show ?thesis
      proof (cases "isPlaying (ed w)")
        case False
        then have "refresh w = Some w" using assms(2) by (simp add: playback_inv_def refresh_idle)
        then show ?thesis using assms e by (simp add: step_def)
      next
        case True
        then obtain cl where cl: "raf_pending w = [(raf_last w, cl)]"
          "0 < array_length (closure_frames cl)"
          using assms(2) by (auto simp: playback_inv_def)
        from refresh_any [OF cl] obtain k where
          "refresh w =
             Some (w\<lparr>ed := (ed w)\<lparr>currentFrame := k\<rparr>,
                     raf_pending := [(raf_last w + 1, cl\<lparr>frameIndex := k\<rparr>)],
                     raf_last := raf_last w + 1,
                     animationRef := Some (raf_last w + 1)\<rparr>)"
          by blast
        then show ?thesis using e True cl(2) assms(1) by (simp add: step_def playback_inv_def)
      qed
    qed
  qed
qed

lemma reachable_inv:
  "reachable v dump w \<Longrightarrow> 0 < array_length (frames (ed w)) \<and> playback_inv w"
proof (induction rule: reachable.induct)
  case reachable_initial
  show ?case
    by (simp add: initial_world_def initial_editor_def playback_inv_def array_length_literal)
next
  case (reachable_step w e w')
  then show ?case using any_step [of w v dump e] by auto
qed

text \<open>
  C9. The initial page holds exactly one keyframe, the neutral one. In every state the
  page reaches, by any events with any values, the keyframe array is non-empty and a
  display refresh (the playback advance with its remainder by the snapshot's length) has
  a result. Every event leaves a non-empty keyframe array non-empty.
\<close>

theorem frames_never_empty:
  "frames (ed initial_world) = array_literal [Elem defaultFrame]
   \<and> (reachable v dump w \<longrightarrow>
        0 < array_length (frames (ed w)) \<and> (\<exists>w'. step v dump Display_refresh w = Some w'))
   \<and> (\<forall>e w'. 0 < array_length (frames (ed w)) \<longrightarrow> step v dump e w = Some w' \<longrightarrow>
        0 < array_length (frames (ed w')))"
proof (intro conjI impI allI)
  show "frames (ed initial_world) = array_literal [Elem defaultFrame]"
    by (simp add: initial_world_def initial_editor_def)
next
  assume r: "reachable v dump w"
  then have inv: "0 < array_length (frames (ed w))" "playback_inv w"
    using reachable_inv by blast+
  show "0 < array_length (frames (ed w))" by (rule inv(1))
  from any_step [OF inv, of v dump Display_refresh]
  show "\<exists>w'. step v dump Display_refresh w = Some w'" by blast
next
  fix e w'
  assume "0 < array_length (frames (ed w))" and "step v dump e w = Some w'"
  then show "0 < array_length (frames (ed w'))"
    using step_length_mono [of v dump e w w'] by linarith
qed

theorem frames_never_empty_witness:
  "reachable Pages_Animate (\<lambda>d. Inr []) initial_world
   \<and> 0 < array_length (frames (ed initial_world))
   \<and> (\<exists>w'. step Pages_Animate (\<lambda>d. Inr []) Display_refresh initial_world = Some w')
   \<and> step Pages_Animate (\<lambda>d. Inr []) Click_addKeyFrame initial_world
       = Some (initial_world\<lparr>ed := addKeyFrame Pages_Animate initial_editor\<rparr>)
   \<and> 0 < array_length (frames (addKeyFrame Pages_Animate initial_editor))"
proof -
  have r: "reachable Pages_Animate (\<lambda>d. Inr []) initial_world" by (rule reachable_initial)
  have s: "step Pages_Animate (\<lambda>d. Inr []) Click_addKeyFrame initial_world
       = Some (initial_world\<lparr>ed := addKeyFrame Pages_Animate initial_editor\<rparr>)"
    by (simp add: step_def initial_world_def)
  have "0 < array_length (frames (ed initial_world))"
    using frames_never_empty [of Pages_Animate "\<lambda>d. Inr []" initial_world] r by blast
  with frames_never_empty [of Pages_Animate "\<lambda>d. Inr []" initial_world] r s
  show ?thesis by fastforce
qed

section \<open>Playback\<close>

lemma playAnimation_start:
  assumes "\<not> isPlaying (ed w)" and "raf_pending w = []"
  shows "raf_pending (playAnimation w) =
           [(raf_last w + 1, \<lparr>frameIndex = currentFrame (ed w), closure_frames = frames (ed w)\<rparr>)]"
    and "isPlaying (ed (playAnimation w))"
    and "currentFrame (ed (playAnimation w)) = currentFrame (ed w)"
  using assms by (simp_all add: playAnimation_def requestAnimationFrame_def)

lemma loop_run:
  assumes "raf_pending w = [(h, cl)]"
    and "0 < array_length (closure_frames cl)"
    and "0 \<le> frameIndex cl" and "frameIndex cl < int (array_length (closure_frames cl))"
    and "Click_play \<notin> set es"
  shows "\<exists>w' h'. run v dump es w = Some w' \<and> isPlaying (ed w') = isPlaying (ed w) \<and>
           raf_pending w' =
             [(h', cl\<lparr>frameIndex := (frameIndex cl + int (count_list es Display_refresh))
                        mod int (array_length (closure_frames cl))\<rparr>)]"
  using assms
proof (induction es arbitrary: w h cl)
  case Nil
  then show ?case by simp
next
  case (Cons e es)
  let ?n = "int (array_length (closure_frames cl))"
  show ?case
  proof (cases "e = Display_refresh")
    case True
    let ?cl = "cl\<lparr>frameIndex := (frameIndex cl + 1) mod ?n\<rparr>"
    from refresh_playing [OF Cons.prems(1,2,3)]
    obtain w1 where w1: "step v dump e w = Some w1" "raf_pending w1 = [(raf_last w + 1, ?cl)]"
      "isPlaying (ed w1) = isPlaying (ed w)"
      using True by (simp add: step_def)
    have "\<exists>w' h'. run v dump es w1 = Some w' \<and> isPlaying (ed w') = isPlaying (ed w1) \<and>
           raf_pending w' =
             [(h', ?cl\<lparr>frameIndex := (frameIndex ?cl + int (count_list es Display_refresh))
                        mod int (array_length (closure_frames ?cl))\<rparr>)]"
      using Cons.prems by (intro Cons.IH [OF w1(2)]) simp_all
    then show ?thesis using w1 True by (auto simp: mod_simps algebra_simps)
  next
    case False
    with Cons.prems(5) step_keeps_pending [of e v dump w]
    obtain w1 where w1: "step v dump e w = Some w1" "raf_pending w1 = [(h, cl)]"
      "isPlaying (ed w1) = isPlaying (ed w)"
      using Cons.prems(1) by auto
    from Cons.IH [OF w1(2) Cons.prems(2,3,4)] Cons.prems(5)
    show ?thesis using w1 False by auto
  qed
qed

lemma page_with_simps:
  "\<not> isPlaying (ed (page_with fs i))" "raf_pending (page_with fs i) = []"
  "array_length (frames (ed (page_with fs i))) = length fs"
  "currentFrame (ed (page_with fs i)) = i"
  by (simp_all add: page_with_def initial_world_def initial_editor_def array_length_literal)

lemma loop_refresh:
  assumes "\<not> isPlaying (ed w)" and "raf_pending w = []"
    and "array_length (frames (ed w)) = n" and "1 \<le> n"
    and "currentFrame (ed w) = i" and "0 \<le> i" and "i < int n"
    and "Click_play \<notin> set es"
  shows "\<exists>w' w''. run v dump es (playAnimation w) = Some w' \<and> isPlaying (ed w') \<and>
           step v dump Display_refresh w' = Some w'' \<and> isPlaying (ed w'') \<and>
           currentFrame (ed w'') = (i + int (count_list es Display_refresh) + 1) mod int n"
proof -
  let ?cl = "\<lparr>frameIndex = i, closure_frames = frames (ed w)\<rparr>"
  have p: "raf_pending (playAnimation w) = [(raf_last w + 1, ?cl)]"
    and pl: "isPlaying (ed (playAnimation w))"
    using playAnimation_start [OF assms(1,2)] assms(5) by simp_all
  have "\<exists>w' h'. run v dump es (playAnimation w) = Some w' \<and>
           isPlaying (ed w') = isPlaying (ed (playAnimation w)) \<and>
           raf_pending w' =
             [(h', ?cl\<lparr>frameIndex := (frameIndex ?cl + int (count_list es Display_refresh))
                        mod int (array_length (closure_frames ?cl))\<rparr>)]"
    using assms by (intro loop_run [OF p]) simp_all
  then obtain w' h' where w': "run v dump es (playAnimation w) = Some w'" "isPlaying (ed w')"
    "raf_pending w' = [(h', ?cl\<lparr>frameIndex := (i + int (count_list es Display_refresh)) mod int n\<rparr>)]"
    using pl assms(3) by auto
  let ?cl' = "?cl\<lparr>frameIndex := (i + int (count_list es Display_refresh)) mod int n\<rparr>"
  have "0 < array_length (closure_frames ?cl')" "0 \<le> frameIndex ?cl'"
    using assms(3,4) by simp_all
  from refresh_playing [OF w'(3) this]
  have "\<exists>w''. step v dump Display_refresh w' = Some w'' \<and> isPlaying (ed w'') \<and>
          currentFrame (ed w'') = ((i + int (count_list es Display_refresh)) mod int n + 1) mod int n"
    using w'(2) assms(3) by (simp add: step_def)
  then show ?thesis using w'(1,2) by (auto simp: mod_simps)
qed

lemma count_list_replicate: "count_list (replicate k x) x = k"
  by (induction k) simp_all

text \<open>
  C5. Playback is started on a stopped page with \<open>n \<ge> 1\<close> keyframes and the active
  index \<open>i\<close>, \<open>0 \<le> i < n\<close>. After \<open>k\<close> display refreshes the page is still playing
  and the active index is \<open>(i + k) mod n\<close>; the next refresh advances it by one modulo
  \<open>n\<close>; after exactly \<open>n\<close> refreshes it is \<open>i\<close> again.
\<close>

theorem playback_cycle:
  assumes "\<not> isPlaying (ed w)" and "raf_pending w = []"
    and "array_length (frames (ed w)) = n" and "1 \<le> n"
    and "currentFrame (ed w) = i" and "0 \<le> i" and "i < int n"
  shows "(\<forall>k. \<exists>w' w''. run v dump (replicate k Display_refresh) (playAnimation w) = Some w' \<and>
            isPlaying (ed w') \<and> currentFrame (ed w') = (i + int k) mod int n \<and>
            step v dump Display_refresh w' = Some w'' \<and> isPlaying (ed w'') \<and>
            currentFrame (ed w'') = (currentFrame (ed w') + 1) mod int n)
       \<and> (\<exists>w'. run v dump (replicate n Display_refresh) (playAnimation w) = Some w' \<and>
            currentFrame (ed w') = i)"
proof -
  have adv: "\<exists>w' w''. run v dump (replicate k Display_refresh) (playAnimation w) = Some w' \<and>
            isPlaying (ed w') \<and> step v dump Display_refresh w' = Some w'' \<and> isPlaying (ed w'') \<and>
            currentFrame (ed w'') = (i + int k + 1) mod int n" for k
    using loop_refresh [OF assms, of "replicate k Display_refresh" v dump]
    by (simp add: count_list_replicate)
  have at: "\<exists>w'. run v dump (replicate k Display_refresh) (playAnimation w) = Some w' \<and>
            currentFrame (ed w') = (i + int k) mod int n" for k
  proof (cases k)
    case 0
    then show ?thesis using playAnimation_start(3) [OF assms(1,2)] assms(5,6,7) by simp
  next
    case (Suc k')
    from adv [of k'] obtain w' w'' where
      "run v dump (replicate k' Display_refresh) (playAnimation w) = Some w'"
      "step v dump Display_refresh w' = Some w''"
      "currentFrame (ed w'') = (i + int k' + 1) mod int n" by blast
    moreover have "replicate k Display_refresh = replicate k' Display_refresh @ [Display_refresh]"
      using Suc by (simp add: replicate_append_same)
    ultimately show ?thesis using Suc by (simp add: run_append algebra_simps)
  qed
  have "\<exists>w' w''. run v dump (replicate k Display_refresh) (playAnimation w) = Some w' \<and>
            isPlaying (ed w') \<and> currentFrame (ed w') = (i + int k) mod int n \<and>
            step v dump Display_refresh w' = Some w'' \<and> isPlaying (ed w'') \<and>
            currentFrame (ed w'') = (currentFrame (ed w') + 1) mod int n" for k
    using adv [of k] at [of k] by (auto simp: mod_simps)
  moreover have "\<exists>w'. run v dump (replicate n Display_refresh) (playAnimation w) = Some w' \<and>
            currentFrame (ed w') = i"
    using at [of n] assms(6,7) by simp
  ultimately show ?thesis by blast
qed

theorem playback_cycle_witness:
  "\<not> isPlaying (ed (page_with [defaultFrame, defaultFrame, defaultFrame] 1))
   \<and> raf_pending (page_with [defaultFrame, defaultFrame, defaultFrame] 1) = []
   \<and> array_length (frames (ed (page_with [defaultFrame, defaultFrame, defaultFrame] 1))) = 3
   \<and> currentFrame (ed (page_with [defaultFrame, defaultFrame, defaultFrame] 1)) = 1
   \<and> (\<exists>w' w''. run Pages_Animate (\<lambda>d. Inr []) (replicate 1 Display_refresh)
                  (playAnimation (page_with [defaultFrame, defaultFrame, defaultFrame] 1)) = Some w'
          \<and> currentFrame (ed w') = 2
          \<and> step Pages_Animate (\<lambda>d. Inr []) Display_refresh w' = Some w''
          \<and> currentFrame (ed w'') = 0)
   \<and> (\<exists>w'. run Pages_Animate (\<lambda>d. Inr []) (replicate 3 Display_refresh)
                  (playAnimation (page_with [defaultFrame, defaultFrame, defaultFrame] 1)) = Some w'
          \<and> currentFrame (ed w') = 1)"
proof -
  let ?w = "page_with [defaultFrame, defaultFrame, defaultFrame] 1"
  have h: "\<not> isPlaying (ed ?w)" "raf_pending ?w = []" "array_length (frames (ed ?w)) = 3"
    "(1::nat) \<le> 3" "currentFrame (ed ?w) = 1" "(0::int) \<le> 1" "(1::int) < int 3"
    by (simp_all add: page_with_simps)
  from playback_cycle [OF h, of Pages_Animate "\<lambda>d. Inr []"]
  have a: "\<forall>k. \<exists>w' w''. run Pages_Animate (\<lambda>d. Inr []) (replicate k Display_refresh) (playAnimation ?w) = Some w' \<and>
            isPlaying (ed w') \<and> currentFrame (ed w') = (1 + int k) mod int 3 \<and>
            step Pages_Animate (\<lambda>d. Inr []) Display_refresh w' = Some w'' \<and> isPlaying (ed w'') \<and>
            currentFrame (ed w'') = (currentFrame (ed w') + 1) mod int 3"
    and b: "\<exists>w'. run Pages_Animate (\<lambda>d. Inr []) (replicate 3 Display_refresh) (playAnimation ?w) = Some w' \<and>
            currentFrame (ed w') = 1"
    by blast+
  from a [rule_format, of 1] obtain w' w'' where
    "run Pages_Animate (\<lambda>d. Inr []) (replicate 1 Display_refresh) (playAnimation ?w) = Some w'"
    "currentFrame (ed w') = 2" "step Pages_Animate (\<lambda>d. Inr []) Display_refresh w' = Some w''"
    "currentFrame (ed w'') = 0" by auto
  then show ?thesis using h b by blast
qed

text \<open>
  C10. Playback is started on a stopped page with \<open>n0\<close> keyframes and the active index
  \<open>i0\<close>. Whatever events follow (timeline changes, added keyframes, edits, exports,
  refreshes; no click on the play button), the refresh that is the \<open>k\<close>-th one since the
  start leaves the active index at \<open>(i0 + k) mod n0\<close>, an index of the keyframes that
  existed when playback started.
\<close>

theorem playback_snapshot:
  assumes "\<not> isPlaying (ed w)" and "raf_pending w = []"
    and "array_length (frames (ed w)) = n0" and "1 \<le> n0"
    and "currentFrame (ed w) = i0" and "0 \<le> i0" and "i0 < int n0"
    and "Click_play \<notin> set es"
  shows "\<exists>w'. run v dump (es @ [Display_refresh]) (playAnimation w) = Some w' \<and>
           currentFrame (ed w') =
             (i0 + int (count_list (es @ [Display_refresh]) Display_refresh)) mod int n0 \<and>
           currentFrame (ed w') < int n0"
proof -
  from loop_refresh [OF assms, of v dump]
  obtain w' w'' where "run v dump es (playAnimation w) = Some w'"
    "step v dump Display_refresh w' = Some w''"
    "currentFrame (ed w'') = (i0 + int (count_list es Display_refresh) + 1) mod int n0"
    by blast
  then show ?thesis using assms(4) by (simp add: run_append algebra_simps)
qed

theorem playback_snapshot_witness:
  "\<not> isPlaying (ed (page_with [defaultFrame, defaultFrame] 1))
   \<and> raf_pending (page_with [defaultFrame, defaultFrame] 1) = []
   \<and> array_length (frames (ed (page_with [defaultFrame, defaultFrame] 1))) = 2
   \<and> currentFrame (ed (page_with [defaultFrame, defaultFrame] 1)) = 1
   \<and> Click_play \<notin> set [Display_refresh, Click_addKeyFrame, Change_timeline 2, Click_addKeyFrame]
   \<and> (\<exists>w'. run Part_001_first (\<lambda>d. Inr [])
               ([Display_refresh, Click_addKeyFrame, Change_timeline 2, Click_addKeyFrame] @ [Display_refresh])
               (playAnimation (page_with [defaultFrame, defaultFrame] 1)) = Some w'
          \<and> currentFrame (ed w') = 1)"
proof -
  let ?w = "page_with [defaultFrame, defaultFrame] 1"
  let ?es = "[Display_refresh, Click_addKeyFrame, Change_timeline 2, Click_addKeyFrame]"
  have h: "\<not> isPlaying (ed ?w)" "raf_pending ?w = []" "array_length (frames (ed ?w)) = 2"
    "(1::nat) \<le> 2" "currentFrame (ed ?w) = 1" "(0::int) \<le> 1" "(1::int) < int 2"
    "Click_play \<notin> set ?es"
    by (simp_all add: page_with_simps)
  from playback_snapshot [OF h, of Part_001_first "\<lambda>d. Inr []"]
  obtain w' where w': "run Part_001_first (\<lambda>d. Inr []) (?es @ [Display_refresh]) (playAnimation ?w) = Some w'"
    "currentFrame (ed w') = (1 + int (count_list (?es @ [Display_refresh]) Display_refresh)) mod int 2"
    by blast
  from w'(2) have "currentFrame (ed w') = 1" by simp
  with w'(1) h show ?thesis by blast
qed

lemma idle_run:
  assumes "raf_pending w = []" and "Click_play \<notin> set es" and "run v dump es w = Some w'"
  shows "raf_pending w' = []"
  using assms
proof (induction es arbitrary: w)
  case Nil
  then show ?case by simp
next
  case (Cons e es)
  from Cons.prems(3) obtain w1 where w1: "step v dump e w = Some w1" "run v dump es w1 = Some w'"
    by (auto split: option.splits)
  have "raf_pending w1 = []"
  proof (cases "e = Display_refresh")
    case True
    then show ?thesis using w1(1) Cons.prems(1) by (simp add: step_def refresh_idle)
  next
    case False
    with step_keeps_pending [of e v dump w] Cons.prems(1,2) w1(1) show ?thesis by auto
  qed
  then show ?case using Cons.IH [OF _ _ w1(2)] Cons.prems(2) by simp
qed

lemma playAnimation_stop:
  assumes "playback_inv w" and "isPlaying (ed w)"
  shows "raf_pending (playAnimation w) = []"
    and "ed (playAnimation w) = (ed w)\<lparr>isPlaying := False\<rparr>"
  using assms
  by (auto simp: playback_inv_def playAnimation_def cancelAnimationFrame_def)

text \<open>
  C8. In a state the page reaches, by any events, and in which it is playing, the click
  that stops playback cancels the one pending callback and leaves the active index as it
  is. The next display refresh changes nothing, and neither does any later refresh,
  whatever events other than a click on the play button come in between.
\<close>

theorem stop_cancels_advance:
  assumes "reachable v dump w" and "isPlaying (ed w)"
  shows "raf_pending (playAnimation w) = []
       \<and> \<not> isPlaying (ed (playAnimation w))
       \<and> currentFrame (ed (playAnimation w)) = currentFrame (ed w)
       \<and> step v dump Display_refresh (playAnimation w) = Some (playAnimation w)
       \<and> (\<forall>es w'. Click_play \<notin> set es \<longrightarrow> run v dump es (playAnimation w) = Some w' \<longrightarrow>
            step v dump Display_refresh w' = Some w')"
proof -
  have inv: "playback_inv w" using reachable_inv [OF assms(1)] by blast
  note stop = playAnimation_stop [OF inv assms(2)]
  have "step v dump Display_refresh w' = Some w'"
    if "Click_play \<notin> set es" "run v dump es (playAnimation w) = Some w'" for es w'
    using idle_run [OF stop(1) that] by (simp add: step_def refresh_idle)
  then show ?thesis using stop by (simp add: step_def refresh_idle)
qed

theorem stop_cancels_advance_witness:
  "reachable Pages_Animate (\<lambda>d. Inr []) (playAnimation initial_world)
   \<and> isPlaying (ed (playAnimation initial_world))
   \<and> raf_pending (playAnimation initial_world) \<noteq> []
   \<and> raf_pending (playAnimation (playAnimation initial_world)) = []
   \<and> step Pages_Animate (\<lambda>d. Inr []) Display_refresh (playAnimation (playAnimation initial_world))
       = Some (playAnimation (playAnimation initial_world))"
proof -
  have "step Pages_Animate (\<lambda>d. Inr []) Click_play initial_world = Some (playAnimation initial_world)"
    by (simp add: step_def)
  then have r: "reachable Pages_Animate (\<lambda>d. Inr []) (playAnimation initial_world)"
    using reachable_initial reachable_step by blast
  have p: "isPlaying (ed (playAnimation initial_world))"
    "raf_pending (playAnimation initial_world) \<noteq> []"
    by (simp_all add: playAnimation_def requestAnimationFrame_def initial_world_def initial_editor_def)
  from stop_cancels_advance [OF r p(1)] r p show ?thesis by simp
qed

section \<open>Export: the interval\<close>

text \<open>
  In part_001 the exported interval of a finite editor interval \<open>r\<close> is the integer
  \<open>max 1 \<lfloor>r\<rfloor>\<close>.
\<close>

lemma export_interval_part_001:
  assumes "v = Part_001_first \<or> v = Part_001_second"
    and "interval s = Finite r"
    and "export_document v s = Inr d"
  shows "\<exists>entry. animations d = [(animationName s, entry)] \<and>
           entry_interval entry = Finite (of_int (max 1 \<lfloor>r\<rfloor>))"
  using assms by (auto simp: export_document_def max_def split: sum.splits)


text \<open>
  C1. The claim: every export writes the interval floored and clamped below to 1, so an
  editor interval of 0 or -5 is exported as 1. In \<^verbatim>\<open>src/src/pages/Animate.tsx\<close> the
  interval field accepts 0 (the first conjunct: typing 0 into the field of the initial
  page), and \<^verbatim>\<open>exportAnimation\<close> writes the stored interval as it is: the document
  exported at interval 0 has interval 0, and at interval -5 it has interval -5. The
  same holds in \<^verbatim>\<open>src/unnamed/part_000\<close> (the last conjunct).
\<close>

theorem export_interval_raw:
  "step Pages_Animate (\<lambda>d. Inr []) (Change_interval (Finite 0)) initial_world
     = Some (initial_world\<lparr>ed := initial_editor\<lparr>interval := Finite 0\<rparr>\<rparr>)
   \<and> export_document Pages_Animate (initial_editor\<lparr>interval := Finite 0\<rparr>)
     = Inr \<lparr>animations = [(''wave'',
         \<lparr>entry_interval = Finite 0, entry_loop = True,
          entry_steps = array_literal [Elem defaultFrame]\<rparr>)]\<rparr>
   \<and> export_document Pages_Animate (initial_editor\<lparr>interval := Finite (- 5)\<rparr>)
     = Inr \<lparr>animations = [(''wave'',
         \<lparr>entry_interval = Finite (- 5), entry_loop = True,
          entry_steps = array_literal [Elem defaultFrame]\<rparr>)]\<rparr>
   \<and> export_document Part_000 (initial_editor\<lparr>interval := Finite 0\<rparr>)
     = Inr \<lparr>animations = [(''wave'',
         \<lparr>entry_interval = Finite 0, entry_loop = True,
          entry_steps = array_literal [Elem defaultFrame]\<rparr>)]\<rparr>"
  by (simp add: step_def initial_world_def initial_editor_def export_document_def)

section \<open>Export: the document\<close>


















section \<open>Rendering a missing keyframe\<close>

lemma ArmorStand_angles_defaultFrame:
  "ArmorStand_angles defaultFrame =
     Inr (replicate 5 (Some (Finite 0), Some (Finite 0), Some (Finite 0)))"
  by (simp add: ArmorStand_angles_def read_joint_def defaultFrame_def zero_angles_def
      numeral_eq_Suc)

text \<open>
  Animate.tsx and part_001 render the neutral pose where the array has nothing at the
  active index, and the renderer reads fifteen zero angles from it.
\<close>

lemma render_fallback:
  assumes "v \<noteq> Part_000" and "array_get (frames s) (currentFrame s) = None"
  shows "currentFrameData v s = Inr defaultFrame"
    and "render v s = Inr (replicate 5 (Some (Finite 0), Some (Finite 0), Some (Finite 0)))"
  using assms
  by (cases v; simp add: render_def currentFrameData_def ArmorStand_angles_defaultFrame)+

lemma render_out_of_range:
  assumes "v \<noteq> Part_000" and "props (frames s) = Map.empty"
    and "currentFrame s < 0 \<or> int (array_length (frames s)) \<le> currentFrame s"
  shows "render v s = Inr (replicate 5 (Some (Finite 0), Some (Finite 0), Some (Finite 0)))"
  using render_fallback(2) [OF assms(1) array_get_out_of_range [OF assms(2,3)]] .

text \<open>
  C6. The claim: at an active index outside the keyframe sequence the neutral pose is
  rendered and nothing is thrown. In \<^verbatim>\<open>src/unnamed/part_000\<close> the page passes
  \<^verbatim>\<open>frames[currentFrame]\<close> itself: with the one initial keyframe and the active index 1
  (the state after \<^verbatim>\<open>setCurrentFrame(1)\<close> on the initial page) or -1 the pose is
  \<^verbatim>\<open>undefined\<close> and rendering throws.
\<close>

theorem render_part_000_throws:
  "step Part_000 (\<lambda>d. Inr []) (Change_timeline 1) initial_world
     = Some (initial_world\<lparr>ed := initial_editor\<lparr>currentFrame := 1\<rparr>\<rparr>)
   \<and> currentFrameData Part_000 (initial_editor\<lparr>currentFrame := 1\<rparr>) = Inl TypeError
   \<and> render Part_000 (initial_editor\<lparr>currentFrame := 1\<rparr>) = Inl TypeError
   \<and> render Part_000 (initial_editor\<lparr>currentFrame := - 1\<rparr>) = Inl TypeError"
  by (simp add: step_def initial_world_def render_def currentFrameData_def initial_editor_def
      array_get_def array_literal_def)

section \<open>Export: a failing serialisation\<close>

text \<open>
  In Animate.tsx and part_000 nothing can throw before \<^verbatim>\<open>yaml.dump\<close>: the export
  fails only where the library does.
\<close>

lemma export_text_raw:
  assumes "v = Pages_Animate \<or> v = Part_000"
  shows "export_text v dump s =
           dump \<lparr>animations = [(animationName s,
                   \<lparr>entry_interval = interval s, entry_loop = True, entry_steps = frames s\<rparr>)]\<rparr>"
  using assms by (auto simp: export_text_def export_document_def)



section \<open>Joint updates on a dense keyframe array\<close>

lemma angle_at_literal:
  "angle_at (array_literal (map Elem fs)) i part ax =
     (if 0 \<le> i \<and> i < int (length fs)
      then (case (fs ! nat i) part of None \<Rightarrow> None | Some g \<Rightarrow> g ax) else None)"
  by (simp add: angle_at_def array_get_literal)

lemma update_one:
  assumes "frames s = array_literal (map Elem fs)" and "0 \<le> i" and "i < int (length fs)"
  shows "\<exists>s' fs'. updateCurrentFrame v part ax val (s\<lparr>currentFrame := i\<rparr>) = Inr s' \<and>
           frames s' = array_literal (map Elem fs') \<and> length fs' = length fs \<and>
           (\<forall>i' part' ax'. angle_at (frames s') i' part' ax' =
              (if i' = i \<and> part' = part \<and> ax' = ax then Some val
               else angle_at (frames s) i' part' ax'))"
proof -
  let ?s = "s\<lparr>currentFrame := i\<rparr>"
  let ?f = "fs ! nat i"
  let ?f' = "?f(part \<mapsto> (spread_object (?f part))(ax \<mapsto> val))"
  have up: "updateCurrentFrame v part ax val ?s
              = Inr (?s\<lparr>frames := array_literal (map Elem (fs[nat i := ?f']))\<rparr>)"
    using updateCurrentFrame_in_range [of ?s fs v part ax val] assms by simp
  have "angle_at (array_literal (map Elem (fs[nat i := ?f']))) i' part' ax' =
          (if i' = i \<and> part' = part \<and> ax' = ax then Some val
           else angle_at (array_literal (map Elem fs)) i' part' ax')" for i' part' ax'
  proof (cases "0 \<le> i' \<and> i' < int (length fs)")
    case False
    then show ?thesis using assms(2,3) by (auto simp: angle_at_literal)
  next
    case True
    show ?thesis
    proof (cases "i' = i")
      case False
      then have "nat i' \<noteq> nat i" using True assms(2) by linarith
      then show ?thesis using True False by (simp add: angle_at_literal)
    next
      case i: True
      have "(fs[nat i := ?f']) ! nat i = ?f'" using assms(2,3) by simp
      then show ?thesis
        using True i by (auto simp: angle_at_literal spread_object_def split: option.splits)
    qed
  qed
  then show ?thesis using up assms(1) by (intro exI [of _ "?s\<lparr>frames := array_literal (map Elem (fs[nat i := ?f']))\<rparr>"] exI [of _ "fs[nat i := ?f']"]) simp
qed

lemma update_many:
  assumes "frames s = array_literal (map Elem fs)"
    and "\<forall>(i, part, ax, val) \<in> set ws. 0 \<le> i \<and> i < int (length fs)"
  shows "\<exists>s' fs'. updateJoints v ws s = Inr s' \<and>
           frames s' = array_literal (map Elem fs') \<and> length fs' = length fs \<and>
           (\<forall>i part ax. angle_at (frames s') i part ax =
              (case last_written ws i part ax of
                 Some x \<Rightarrow> Some x | None \<Rightarrow> angle_at (frames s) i part ax))"
  using assms
proof (induction ws arbitrary: s fs)
  case Nil
  then show ?case by auto
next
  case (Cons w ws)
  obtain i part ax val where w: "w = (i, part, ax, val)" by (cases w)
  have i: "0 \<le> i" "i < int (length fs)" using Cons.prems(2) w by auto
  from update_one [OF Cons.prems(1) i, of v part ax val]
  obtain s1 fs1 where s1: "updateCurrentFrame v part ax val (s\<lparr>currentFrame := i\<rparr>) = Inr s1"
    "frames s1 = array_literal (map Elem fs1)" "length fs1 = length fs"
    "\<And>i' part' ax'. angle_at (frames s1) i' part' ax' =
              (if i' = i \<and> part' = part \<and> ax' = ax then Some val
               else angle_at (frames s) i' part' ax')"
    by blast
  have "\<forall>(i, part, ax, val) \<in> set ws. 0 \<le> i \<and> i < int (length fs1)"
    using Cons.prems(2) s1(3) by simp
  from Cons.IH [OF s1(2) this]
  obtain s' fs' where s': "updateJoints v ws s1 = Inr s'"
    "frames s' = array_literal (map Elem fs')" "length fs' = length fs1"
    "\<And>i part ax. angle_at (frames s') i part ax =
              (case last_written ws i part ax of
                 Some x \<Rightarrow> Some x | None \<Rightarrow> angle_at (frames s1) i part ax)"
    by blast
  have "angle_at (frames s') i' part' ax' =
              (case last_written (w # ws) i' part' ax' of
                 Some x \<Rightarrow> Some x | None \<Rightarrow> angle_at (frames s) i' part' ax')" for i' part' ax'
    unfolding s'(4) s1(4) w by (auto split: option.splits)
  then show ?case
    using s1(1,3) s'(1,2,3) w by auto
qed

section \<open>The store refines the editor state\<close>

lemma all_joints: "(\<forall>p. Q p) \<longleftrightarrow> Q head \<and> Q left_arm \<and> Q right_arm \<and> Q left_leg \<and> Q right_leg"
  by (metis joint.exhaust)

lemma frame_ref_ok_iff:
  "frame_ref_ok h r \<longleftrightarrow>
     r < length h \<and>
     (\<exists>m. h ! r = Frame_cell m \<and>
          (\<forall>part ra. m part = Some ra \<longrightarrow> ra < length h \<and> (\<exists>g. h ! ra = Angles_cell g)))"
proof -
  have "(\<forall>part ra. m part = Some ra \<longrightarrow> ra < length h \<and> (\<exists>g. h ! ra = Angles_cell g)) \<longleftrightarrow>
        list_all (\<lambda>part. case m part of None \<Rightarrow> True
                       | Some ra \<Rightarrow> ra < length h \<and> (case h ! ra of Angles_cell g \<Rightarrow> True | _ \<Rightarrow> False))
             [head, left_arm, right_arm, left_leg, right_leg]" for m
    unfolding all_joints [of "\<lambda>part. \<forall>ra. m part = Some ra \<longrightarrow> ra < length h \<and> (\<exists>g. h ! ra = Angles_cell g)"]
    by (auto split: option.splits cell.splits)
  then show ?thesis
    by (auto simp: frame_ref_ok_def split: cell.splits)
qed

lemma frame_fields_append: "r < length h \<Longrightarrow> frame_fields (h @ cs) r = frame_fields h r"
  by (simp add: frame_fields_def nth_append)

lemma angle_fields_append: "r < length h \<Longrightarrow> angle_fields (h @ cs) r = angle_fields h r"
  by (simp add: angle_fields_def nth_append)

lemma frame_ref_ok_append: "frame_ref_ok h r \<Longrightarrow> frame_ref_ok (h @ cs) r"
  unfolding frame_ref_ok_iff by (auto simp: nth_append)

lemma frame_value_append:
  assumes "frame_ref_ok h r"
  shows "frame_value (h @ cs) r = frame_value h r"
proof
  fix part
  from assms obtain m where m: "r < length h" "h ! r = Frame_cell m"
    "\<And>p ra. m p = Some ra \<Longrightarrow> ra < length h"
    unfolding frame_ref_ok_iff by blast
  have ff: "frame_fields h r = m" using m(1,2) by (simp add: frame_fields_def)
  show "frame_value (h @ cs) r part = frame_value h r part"
    using m(1) m(3) [of part]
    by (auto simp: frame_value_def frame_fields_append ff angle_fields_append split: option.splits)
qed

lemma frame_fields_ok:
  assumes "frame_ref_ok h r" and "frame_fields h r part = Some ra"
  shows "ra < length h" and "\<exists>g. h ! ra = Angles_cell g"
  using assms unfolding frame_ref_ok_iff by (auto simp: frame_fields_def)

text \<open>A new frame object whose fields are those of valid frame objects.\<close>

lemma new_frame_ok:
  assumes "\<forall>part ra. m part = Some ra \<longrightarrow> ra < length h \<and> (\<exists>g. h ! ra = Angles_cell g)"
  shows "frame_ref_ok (h @ [Frame_cell m]) (length h)"
    and "frame_value (h @ [Frame_cell m]) (length h) =
           (\<lambda>part. case m part of None \<Rightarrow> None | Some ra \<Rightarrow> Some (angle_fields h ra))"
proof -
  show "frame_ref_ok (h @ [Frame_cell m]) (length h)"
    unfolding frame_ref_ok_iff using assms by (fastforce simp: nth_append)
  show "frame_value (h @ [Frame_cell m]) (length h) =
           (\<lambda>part. case m part of None \<Rightarrow> None | Some ra \<Rightarrow> Some (angle_fields h ra))"
  proof
    fix part
    show "frame_value (h @ [Frame_cell m]) (length h) part =
            (case m part of None \<Rightarrow> None | Some ra \<Rightarrow> Some (angle_fields h ra))"
      using assms
      by (auto simp: frame_value_def frame_fields_def angle_fields_append split: option.splits)
  qed
qed

lemma array_get_value:
  "array_get (array_value h a) i = map_option (frame_value h) (array_get a i)"
  by (auto simp: array_get_def array_value_def split: slot.splits)

lemma array_set_value:
  "array_set (array_value h a) i (frame_value h r) = array_value h (array_set a i r)"
  by (auto simp: array_set_def array_value_def map_update)

lemma spread_array_value:
  "array_literal (spread_array (array_value h a) @ map (map_slot (frame_value h)) xs)
     = array_value h (array_literal (spread_array a @ xs))"
  by (auto simp: array_literal_def spread_array_def array_value_def split: slot.splits)

lemma array_length_value: "array_length (array_value h a) = array_length a"
  by (simp add: array_length_def array_value_def)

lemma slot_refs: "s \<in> set (slots a) \<Longrightarrow> r \<in> set_slot s \<Longrightarrow> r \<in> array_refs a"
  by (auto simp: array_refs_def)

lemma prop_refs: "props a i = Some r \<Longrightarrow> r \<in> array_refs a"
  by (auto simp: array_refs_def ran_def)

lemma array_get_refs:
  assumes "array_get a i = Some r"
  shows "r \<in> array_refs a"
proof (cases "0 \<le> i")
  case True
  with assms have i: "nat i < length (slots a)" and "slots a ! nat i = Elem r"
    by (auto simp: array_get_def split: if_splits slot.splits)
  then have "Elem r \<in> set (slots a)" by (metis nth_mem)
  then show ?thesis by (rule slot_refs) simp
next
  case False
  with assms show ?thesis by (auto simp: array_get_def intro: prop_refs)
qed

lemma array_value_append:
  assumes "\<forall>r \<in> array_refs a. frame_ref_ok h r"
  shows "array_value (h @ cs) a = array_value h a"
proof -
  have "map_slot (frame_value (h @ cs)) s = map_slot (frame_value h) s" if "s \<in> set (slots a)" for s
    using assms slot_refs [OF that] by (cases s) (simp_all add: frame_value_append)
  moreover have "map_option (frame_value (h @ cs)) (props a i) = map_option (frame_value h) (props a i)" for i
    using assms prop_refs [of a i] by (cases "props a i") (simp_all add: frame_value_append)
  ultimately show ?thesis by (simp add: array_value_def)
qed

lemma array_refs_spread:
  "array_refs (array_literal (spread_array a @ xs)) \<subseteq> array_refs a \<union> (\<Union>s \<in> set xs. set_slot s)"
  by (auto simp: array_refs_def array_literal_def spread_array_def split: slot.splits)

lemma array_refs_set: "array_refs (array_set a i r) \<subseteq> array_refs a \<union> {r}"
proof -
  have "set_slot s \<subseteq> array_refs a \<union> {r}" if "s \<in> set ((slots a)[nat i := Elem r])" for s
    using that set_update_subset_insert [of "slots a" "nat i" "Elem r"]
    by (auto simp: array_refs_def)
  moreover have "ran ((props a)(i \<mapsto> r)) \<subseteq> array_refs a \<union> {r}"
    by (auto simp: array_refs_def ran_def)
  ultimately show ?thesis
    by (auto simp: array_set_def array_refs_def)
qed

lemma frame_value_fields:
  "(\<lambda>part. case frame_fields h r part of None \<Rightarrow> None | Some ra \<Rightarrow> Some (angle_fields h ra))
     = frame_value h r"
  by (simp add: frame_value_def)

lemma frame_ref_ok_fields:
  "frame_ref_ok h r \<Longrightarrow>
   \<forall>part ra. frame_fields h r part = Some ra \<longrightarrow> ra < length h \<and> (\<exists>g. h ! ra = Angles_cell g)"
  using frame_fields_ok by blast

lemma heap_addKeyFrame_refines:
  assumes "heap_ok hs"
  shows "abstract (heap_addKeyFrame v hs) s = addKeyFrame v (abstract hs s)"
    and "heap_ok (heap_addKeyFrame v hs)"
    and "\<exists>cs. store (heap_addKeyFrame v hs) = store hs @ cs"
proof -
  let ?h = "store hs" and ?a = "frame_refs hs"
  let ?src = "array_get ?a (current hs)"
  define m where "m =
            (case v of
               Pages_Animate \<Rightarrow> (case ?src of None \<Rightarrow> Map.empty | Some r \<Rightarrow> frame_fields ?h r)
             | Part_000 \<Rightarrow> (case ?src of None \<Rightarrow> Map.empty | Some r \<Rightarrow> frame_fields ?h r)
             | _ \<Rightarrow> frame_fields ?h (case ?src of None \<Rightarrow> defaultFrame_ref | Some r \<Rightarrow> r))"
  define copied where "copied =
            (case v of
               Pages_Animate \<Rightarrow> spread_object (array_get (array_value ?h ?a) (current hs))
             | Part_000 \<Rightarrow> spread_object (array_get (array_value ?h ?a) (current hs))
             | _ \<Rightarrow> spread_object (Some (case array_get (array_value ?h ?a) (current hs) of
                                            None \<Rightarrow> defaultFrame | Some f \<Rightarrow> f)))"
  let ?h' = "?h @ [Frame_cell m]"
  have ok: "\<forall>r \<in> array_refs ?a. frame_ref_ok ?h r" "frame_ref_ok ?h defaultFrame_ref"
    "frame_value ?h defaultFrame_ref = defaultFrame"
    using assms by (simp_all add: heap_ok_def)
  have src_ok: "frame_ref_ok ?h r" if "?src = Some r" for r
    using ok(1) array_get_refs [OF that] by blast
  have m_ok: "\<forall>part ra. m part = Some ra \<longrightarrow> ra < length ?h \<and> (\<exists>g. ?h ! ra = Angles_cell g)"
    using src_ok ok(2) frame_ref_ok_fields
    by (cases v; cases ?src) (simp_all add: m_def)
  have m_val: "(\<lambda>part. case m part of None \<Rightarrow> None | Some ra \<Rightarrow> Some (angle_fields ?h ra)) = copied"
    using ok(3)
    by (cases v; cases ?src)
      (simp_all add: m_def copied_def array_get_value spread_object_def frame_value_fields)
  have new: "frame_ref_ok ?h' (length ?h)" "frame_value ?h' (length ?h) = copied"
    using new_frame_ok [OF m_ok] m_val by simp_all
  have hadd: "heap_addKeyFrame v hs =
          hs\<lparr>store := ?h', frame_refs := array_literal (spread_array ?a @ [Elem (length ?h)]),
             current := int (array_length ?a)\<rparr>"
    by (simp add: heap_addKeyFrame_def Let_def alloc_def m_def)
  have "array_value ?h' (array_literal (spread_array ?a @ [Elem (length ?h)]))
          = array_literal (spread_array (array_value ?h' ?a) @ [Elem copied])"
    using spread_array_value [of ?h' ?a "[Elem (length ?h)]"] new(2) by simp
  also have "array_value ?h' ?a = array_value ?h ?a"
    using ok(1) by (rule array_value_append)
  finally have av: "array_value ?h' (array_literal (spread_array ?a @ [Elem (length ?h)]))
          = array_literal (spread_array (array_value ?h ?a) @ [Elem copied])" .
  have a1: "frames (abstract hs s) = array_value ?h ?a" "currentFrame (abstract hs s) = current hs"
    by (simp_all add: abstract_def)
  have "addKeyFrame v (abstract hs s) =
          (abstract hs s)\<lparr>frames := array_literal (spread_array (array_value ?h ?a) @ [Elem copied]),
                           currentFrame := int (array_length ?a)\<rparr>"
    unfolding addKeyFrame_def a1 copied_def Let_def array_length_value by (rule refl)
  then show "abstract (heap_addKeyFrame v hs) s = addKeyFrame v (abstract hs s)"
    by (simp add: hadd abstract_def av)
  have "frame_ref_ok ?h' r"
    if "r \<in> array_refs (array_literal (spread_array ?a @ [Elem (length ?h)]))" for r
    using that array_refs_spread [of ?a "[Elem (length ?h)]"] ok(1) new(1)
    by (auto intro: frame_ref_ok_append)
  then show "heap_ok (heap_addKeyFrame v hs)"
    using ok frame_ref_ok_append [OF ok(2)] frame_value_append [OF ok(2)]
    by (simp add: hadd heap_ok_def)
  show "\<exists>cs. store (heap_addKeyFrame v hs) = store hs @ cs"
    by (simp add: hadd)
qed

lemma heap_assign_axis_refines:
  assumes "\<forall>r \<in> array_refs nf. frame_ref_ok h r"
  shows "case heap_assign_axis h nf i part ax val of
           Inl e \<Rightarrow> assign_axis (array_value h nf) i part ax val = Inl e
         | Inr (h2, fs) \<Rightarrow>
             assign_axis (array_value h nf) i part ax val = Inr (array_value h2 fs) \<and>
             (\<exists>cs. h2 = h @ cs) \<and> (\<forall>r \<in> array_refs fs. frame_ref_ok h2 r)"
proof (cases "array_get nf i")
  case None
  then show ?thesis
    by (simp add: heap_assign_axis_def assign_axis_def array_get_value)
next
  case (Some r)
  then have r_ok: "frame_ref_ok h r" using assms array_get_refs by blast
  let ?m = "frame_fields h r"
  let ?f = "frame_value h r"
  let ?g = "(spread_object (?f part))(ax \<mapsto> val)"
  let ?h1 = "h @ [Angles_cell ?g]"
  let ?m' = "?m(part \<mapsto> length h)"
  let ?h2 = "?h1 @ [Frame_cell ?m']"
  have inner: "(case ?m part of None \<Rightarrow> Map.empty | Some ra \<Rightarrow> angle_fields h ra) = spread_object (?f part)"
    by (simp add: frame_value_def spread_object_def split: option.splits)
  have res: "heap_assign_axis h nf i part ax val = Inr (?h2, array_set nf i (length ?h1))"
    by (simp add: heap_assign_axis_def Some Let_def alloc_def inner)
  have m'_ok: "\<forall>p ra. ?m' p = Some ra \<longrightarrow> ra < length ?h1 \<and> (\<exists>g. ?h1 ! ra = Angles_cell g)"
  proof (intro allI impI)
    fix p ra assume a: "?m' p = Some ra"
    show "ra < length ?h1 \<and> (\<exists>g. ?h1 ! ra = Angles_cell g)"
    proof (cases "p = part")
      case True
      with a have "ra = length h" by simp
      then show ?thesis by simp
    next
      case False
      with a have "?m p = Some ra" by simp
      from frame_fields_ok [OF r_ok this] show ?thesis by (auto simp: nth_append)
    qed
  qed
  have new_ok: "frame_ref_ok ?h2 (length ?h1)" by (rule new_frame_ok(1) [OF m'_ok])
  have new_val: "frame_value ?h2 (length ?h1) = ?f(part \<mapsto> ?g)"
  proof
    fix p
    have "angle_fields ?h1 ra = angle_fields h ra" if "?m p = Some ra" for ra
      using frame_fields_ok(1) [OF r_ok that] by (rule angle_fields_append)
    then show "frame_value ?h2 (length ?h1) p = (?f(part \<mapsto> ?g)) p"
      unfolding new_frame_ok(2) [OF m'_ok]
      by (auto simp: angle_fields_def frame_value_def split: option.splits)
  qed
  have "array_value ?h2 nf = array_value h nf"
    using array_value_append [OF assms, of "[Angles_cell ?g, Frame_cell ?m']"] by simp
  then have av: "array_value ?h2 (array_set nf i (length ?h1))
                  = array_set (array_value h nf) i (?f(part \<mapsto> ?g))"
    using array_set_value [of ?h2 nf i "length ?h1"] new_val by simp
  have refs: "\<forall>r' \<in> array_refs (array_set nf i (length ?h1)). frame_ref_ok ?h2 r'"
  proof
    fix r' assume that: "r' \<in> array_refs (array_set nf i (length ?h1))"
    show "frame_ref_ok ?h2 r'"
    proof (cases "r' = length ?h1")
      case True
      then show ?thesis using new_ok by (simp only:)
    next
      case False
      with that array_refs_set [of nf i "length ?h1"] have "r' \<in> array_refs nf" by auto
      with assms have "frame_ref_ok h r'" by blast
      from frame_ref_ok_append [OF this, of "[Angles_cell ?g, Frame_cell ?m']"]
      show ?thesis by simp
    qed
  qed
  have "assign_axis (array_value h nf) i part ax val
          = Inr (array_set (array_value h nf) i (?f(part \<mapsto> ?g)))"
    by (simp add: assign_axis_def array_get_value Some spread_object_def)
  then have asg: "assign_axis (array_value h nf) i part ax val
          = Inr (array_value ?h2 (array_set nf i (length ?h1)))"
    by (simp only: av)
  have ext: "\<exists>cs. ?h2 = h @ cs" by simp
  show ?thesis
    unfolding res sum.case prod.case using asg ext refs by blast
qed

lemma spread_literal_value:
  "array_value h (array_literal (spread_array a)) = array_literal (spread_array (array_value h a))"
  using spread_array_value [of h a "[]"] by simp

lemma heap_updateCurrentFrame_refines:
  assumes "heap_ok hs"
  shows "case heap_updateCurrentFrame v part ax val hs of
           Inl e \<Rightarrow> updateCurrentFrame v part ax val (abstract hs s) = Inl e
         | Inr hs' \<Rightarrow>
             updateCurrentFrame v part ax val (abstract hs s) = Inr (abstract hs' s) \<and>
             heap_ok hs' \<and> (\<exists>cs. store hs' = store hs @ cs)"
proof -
  let ?h = "store hs" and ?a = "frame_refs hs" and ?i = "current hs"
  let ?nf = "array_literal (spread_array ?a)"
  have ok: "\<forall>r \<in> array_refs ?a. frame_ref_ok ?h r" "frame_ref_ok ?h defaultFrame_ref"
    "frame_value ?h defaultFrame_ref = defaultFrame"
    using assms by (simp_all add: heap_ok_def)
  have nf_ok: "\<forall>r \<in> array_refs ?nf. frame_ref_ok ?h r"
    using ok(1) array_refs_spread [of ?a "[]"] by auto
  define fill where "fill \<longleftrightarrow> (v = Part_001_first \<or> v = Part_001_second) \<and> array_get ?nf ?i = None"
  let ?d = "Frame_cell (frame_fields ?h defaultFrame_ref)"
  define h1 where "h1 = (if fill then ?h @ [?d] else ?h)"
  define nf' where "nf' = (if fill then array_set ?nf ?i (length ?h) else ?nf)"
  have hup: "heap_updateCurrentFrame v part ax val hs =
          (case heap_assign_axis h1 nf' ?i part ax val of
             Inl e \<Rightarrow> Inl e
           | Inr (h2, fs) \<Rightarrow> Inr (hs\<lparr>store := h2, frame_refs := fs\<rparr>))"
    by (cases v) (simp_all add: heap_updateCurrentFrame_def Let_def alloc_def fill_def h1_def nf'_def)
  have h1_ext: "\<exists>cs. h1 = ?h @ cs" by (simp add: h1_def)
  then obtain cs1 where cs1: "h1 = ?h @ cs1" by blast
  have d_ok: "frame_ref_ok (?h @ [?d]) (length ?h)"
    and d_val: "frame_value (?h @ [?d]) (length ?h) = defaultFrame"
    using new_frame_ok [OF frame_ref_ok_fields [OF ok(2)]] ok(3)
    by (simp_all add: frame_value_fields)
  have nf'_ok: "\<forall>r \<in> array_refs nf'. frame_ref_ok h1 r"
  proof
    fix r assume r: "r \<in> array_refs nf'"
    show "frame_ref_ok h1 r"
    proof (cases fill)
      case True
      with r array_refs_set [of ?nf ?i "length ?h"] have "r \<in> array_refs ?nf \<or> r = length ?h"
        by (auto simp: nf'_def)
      then show ?thesis using nf_ok d_ok True frame_ref_ok_append [of ?h r "[?d]"]
        by (auto simp: h1_def)
    next
      case False
      then show ?thesis using r nf_ok by (simp add: nf'_def h1_def)
    qed
  qed
  have val_nf: "array_value h1 nf' =
      (if fill then array_set (array_literal (spread_array (array_value ?h ?a))) ?i
                      (spread_object (Some defaultFrame))
       else array_literal (spread_array (array_value ?h ?a)))"
  proof (cases fill)
    case True
    have "array_value (?h @ [?d]) ?nf = array_value ?h ?nf"
      using nf_ok by (rule array_value_append)
    then show ?thesis
      using True array_set_value [of "?h @ [?d]" ?nf ?i "length ?h"] d_val
      by (simp add: nf'_def h1_def spread_literal_value spread_object_def)
  next
    case False
    then show ?thesis by (simp add: nf'_def h1_def spread_literal_value)
  qed
  have a1: "frames (abstract hs s) = array_value ?h ?a" "currentFrame (abstract hs s) = ?i"
    by (simp_all add: abstract_def)
  have fill_val: "fill \<longleftrightarrow> (v = Part_001_first \<or> v = Part_001_second) \<and>
       array_get (array_literal (spread_array (array_value ?h ?a))) ?i = None"
    unfolding fill_def spread_literal_value [symmetric] array_get_value by simp
  have up: "updateCurrentFrame v part ax val (abstract hs s) =
          (case assign_axis (array_value h1 nf') ?i part ax val of
             Inl e \<Rightarrow> Inl e
           | Inr fs \<Rightarrow> Inr ((abstract hs s)\<lparr>frames := fs\<rparr>))"
    unfolding updateCurrentFrame_def a1 Let_def val_nf fill_val
    by (cases v) simp_all
  show ?thesis
  proof (cases "heap_assign_axis h1 nf' ?i part ax val")
    case (Inl e)
    with heap_assign_axis_refines [OF nf'_ok, of ?i part ax val]
    show ?thesis by (simp add: hup up)
  next
    case (Inr res)
    obtain h2 fs where res: "res = (h2, fs)" by (cases res)
    from heap_assign_axis_refines [OF nf'_ok, of ?i part ax val] Inr res
    have r: "assign_axis (array_value h1 nf') ?i part ax val = Inr (array_value h2 fs)"
      "\<exists>cs. h2 = h1 @ cs" "\<forall>r \<in> array_refs fs. frame_ref_ok h2 r"
      by simp_all
    from r(2) cs1 obtain cs where cs: "h2 = ?h @ cs" by auto
    have "heap_ok (hs\<lparr>store := h2, frame_refs := fs\<rparr>)"
      using r(3) ok(2,3) frame_ref_ok_append [OF ok(2), of cs] frame_value_append [OF ok(2), of cs]
      by (simp add: heap_ok_def cs)
    moreover have "updateCurrentFrame v part ax val (abstract hs s)
                     = Inr ((abstract hs s)\<lparr>frames := array_value h2 fs\<rparr>)"
      using up r(1) by simp
    moreover have "abstract (hs\<lparr>store := h2, frame_refs := fs\<rparr>) s
                     = (abstract hs s)\<lparr>frames := array_value h2 fs\<rparr>"
      by (simp add: abstract_def)
    ultimately show ?thesis
      using Inr res cs by (simp add: hup)
  qed
qed

lemma heap_ok_current: "heap_ok (hs\<lparr>current := i\<rparr>) = heap_ok hs"
  by (simp add: heap_ok_def)

lemma abstract_current: "abstract (hs\<lparr>current := i\<rparr>) s = (abstract hs s)\<lparr>currentFrame := i\<rparr>"
  by (simp add: abstract_def)

lemma abstract_frames: "frames (abstract hs s) = array_value (store hs) (frame_refs hs)"
  by (simp add: abstract_def)

lemma array_value_literal:
  "array_value h (array_literal (map Elem rs)) = array_literal (map Elem (map (frame_value h) rs))"
  by (simp add: array_value_def array_literal_def)

lemma heap_updateJoints_refines:
  assumes "heap_ok hs"
  shows "case heap_updateJoints v ws hs of
           Inl e \<Rightarrow> updateJoints v ws (abstract hs s) = Inl e
         | Inr hs' \<Rightarrow>
             updateJoints v ws (abstract hs s) = Inr (abstract hs' s) \<and>
             heap_ok hs' \<and> (\<exists>cs. store hs' = store hs @ cs)"
  using assms
proof (induction ws arbitrary: hs)
  case Nil
  then show ?case by simp
next
  case (Cons w ws)
  obtain i part ax val where w: "w = (i, part, ax, val)" by (cases w)
  have ok: "heap_ok (hs\<lparr>current := i\<rparr>)" using Cons.prems by (simp add: heap_ok_current)
  show ?case
  proof (cases "heap_updateCurrentFrame v part ax val (hs\<lparr>current := i\<rparr>)")
    case (Inl e)
    with heap_updateCurrentFrame_refines [OF ok, of v part ax val s]
    show ?thesis by (simp add: w abstract_current)
  next
    case (Inr hs1)
    with heap_updateCurrentFrame_refines [OF ok, of v part ax val s]
    have 1: "updateCurrentFrame v part ax val ((abstract hs s)\<lparr>currentFrame := i\<rparr>) = Inr (abstract hs1 s)"
      "heap_ok hs1" "\<exists>cs. store hs1 = store hs @ cs"
      by (simp_all add: abstract_current)
    from 1(3) obtain cs1 where cs1: "store hs1 = store hs @ cs1" by blast
    show ?thesis
    proof (cases "heap_updateJoints v ws hs1")
      case e: (Inl e)
      with Cons.IH [OF 1(2)] show ?thesis using Inr 1(1) by (simp add: w)
    next
      case r: (Inr hs')
      with Cons.IH [OF 1(2)] have "updateJoints v ws (abstract hs1 s) = Inr (abstract hs' s)"
        "heap_ok hs'" "\<exists>cs. store hs' = store hs1 @ cs" by simp_all
      then show ?thesis using Inr r 1(1) cs1 by (auto simp: w)
    qed
  qed
qed


lemma heap_angle_at_dense:
  assumes "frame_refs hs = array_literal (map Elem rs)"
  shows "heap_angle_at hs i part ax =
           (if 0 \<le> i \<and> i < int (length rs)
            then (case frame_value (store hs) (rs ! nat i) part of None \<Rightarrow> None | Some g \<Rightarrow> g ax)
            else None)"
  unfolding heap_angle_at_def assms array_value_literal angle_at_literal
  by (auto simp: nat_less_iff)

lemma heap_update_one:
  assumes "heap_ok hs" and "frame_refs hs = array_literal (map Elem rs)"
    and "0 \<le> i" and "i < int (length rs)"
  shows "\<exists>hs'. heap_updateCurrentFrame v part ax val (hs\<lparr>current := i\<rparr>) = Inr hs' \<and>
            (\<exists>cs. store hs' = store hs @ cs) \<and>
            array_length (frame_refs hs') = length rs \<and>
            (\<forall>i' part' ax'. heap_angle_at hs' i' part' ax' =
               (if i' = i \<and> part' = part \<and> ax' = ax then Some val
                else heap_angle_at hs i' part' ax'))"
proof -
  let ?s = "abstract hs initial_editor"
  let ?fs = "map (frame_value (store hs)) rs"
  have fr: "frames ?s = array_literal (map Elem ?fs)"
    by (simp add: abstract_frames assms(2) array_value_literal)
  have i: "0 \<le> i" "i < int (length ?fs)" using assms(3,4) by simp_all
  have ok: "heap_ok (hs\<lparr>current := i\<rparr>)" using assms(1) by (simp add: heap_ok_current)
  from update_one [OF fr i, of v part ax val]
  obtain s' fs' where s': "updateCurrentFrame v part ax val (?s\<lparr>currentFrame := i\<rparr>) = Inr s'"
    "frames s' = array_literal (map Elem fs')" "length fs' = length ?fs"
    "\<And>i' part' ax'. angle_at (frames s') i' part' ax' =
              (if i' = i \<and> part' = part \<and> ax' = ax then Some val
               else angle_at (frames ?s) i' part' ax')"
    by blast
  from heap_updateCurrentFrame_refines [OF ok, of v part ax val initial_editor] s'(1)
  obtain hs' where hs': "heap_updateCurrentFrame v part ax val (hs\<lparr>current := i\<rparr>) = Inr hs'"
    "s' = abstract hs' initial_editor" "\<exists>cs. store hs' = store hs @ cs"
    by (cases "heap_updateCurrentFrame v part ax val (hs\<lparr>current := i\<rparr>)")
      (auto simp: abstract_current)
  have len: "array_length (frame_refs hs') = length rs"
    using s'(2,3) hs'(2) array_length_value [of "store hs'" "frame_refs hs'"]
    by (simp add: abstract_frames array_length_literal)
  show ?thesis
    using hs'(1,3) len s'(4) unfolding hs'(2) abstract_frames heap_angle_at_def
    by (intro exI [of _ hs']) auto
qed

lemma heap_update_many:
  assumes "heap_ok hs" and "frame_refs hs = array_literal (map Elem rs)"
    and "\<forall>(i, part, ax, val) \<in> set ws. 0 \<le> i \<and> i < int (length rs)"
  shows "\<exists>hs'. heap_updateJoints v ws hs = Inr hs' \<and>
            (\<exists>cs. store hs' = store hs @ cs) \<and>
            (\<forall>i part ax. heap_angle_at hs' i part ax =
               (case last_written ws i part ax of
                  Some x \<Rightarrow> Some x | None \<Rightarrow> heap_angle_at hs i part ax))"
proof -
  let ?s = "abstract hs initial_editor"
  let ?fs = "map (frame_value (store hs)) rs"
  have fr: "frames ?s = array_literal (map Elem ?fs)"
    by (simp add: abstract_frames assms(2) array_value_literal)
  have ws: "\<forall>(i, part, ax, val) \<in> set ws. 0 \<le> i \<and> i < int (length ?fs)"
    using assms(3) by simp
  from update_many [OF fr ws, of v]
  obtain s' where s': "updateJoints v ws ?s = Inr s'"
    "\<And>i part ax. angle_at (frames s') i part ax =
              (case last_written ws i part ax of
                 Some x \<Rightarrow> Some x | None \<Rightarrow> angle_at (frames ?s) i part ax)"
    by blast
  from heap_updateJoints_refines [OF assms(1), of v ws initial_editor] s'(1)
  obtain hs' where hs': "heap_updateJoints v ws hs = Inr hs'"
    "s' = abstract hs' initial_editor" "\<exists>cs. store hs' = store hs @ cs"
    by (cases "heap_updateJoints v ws hs") auto
  show ?thesis
    using hs'(1,3) s'(2) unfolding hs'(2) abstract_frames heap_angle_at_def
    by (intro exI [of _ hs']) auto
qed

lemma heap_ok_initial: "heap_ok initial_heap_editor"
proof -
  have "frame_value (store initial_heap_editor) defaultFrame_ref = defaultFrame"
  proof
    fix part
    show "frame_value (store initial_heap_editor) defaultFrame_ref part = defaultFrame part"
      by (cases part)
        (simp_all add: frame_value_def frame_fields_def angle_fields_def defaultFrame_def
          initial_heap_editor_def defaultFrame_ref_def)
  qed
  moreover have "frame_ref_ok (store initial_heap_editor) defaultFrame_ref"
    by (simp add: frame_ref_ok_def initial_heap_editor_def defaultFrame_ref_def)
  moreover have "array_refs (frame_refs initial_heap_editor) = {defaultFrame_ref}"
    by (simp add: array_refs_def initial_heap_editor_def array_literal_def)
  ultimately show ?thesis by (simp add: heap_ok_def)
qed

lemma two_keyframes_refs: "frame_refs two_keyframes = array_literal (map Elem [5, 6])"
  by (simp add: two_keyframes_def heap_addKeyFrame_def initial_heap_editor_def alloc_def
      array_literal_def spread_array_def array_get_def defaultFrame_ref_def)

lemma two_keyframes_ok: "heap_ok two_keyframes"
  unfolding two_keyframes_def by (rule heap_addKeyFrame_refines(2) [OF heap_ok_initial])

lemma two_keyframes_shared:
  "frame_fields (store two_keyframes) 6 = frame_fields (store two_keyframes) 5"
  "heap_angle_at two_keyframes 0 head axis_x = Some (Finite 0)"
  "heap_angle_at two_keyframes 1 head axis_y = Some (Finite 0)"
  "heap_angle_at two_keyframes 1 head axis_x = Some (Finite 0)"
  by (simp_all add: heap_angle_at_dense [OF two_keyframes_refs] frame_value_def)
     (simp_all add: two_keyframes_def heap_addKeyFrame_def initial_heap_editor_def alloc_def
      array_literal_def spread_array_def array_get_def defaultFrame_ref_def frame_fields_def
      angle_fields_def zero_angles_def)

section \<open>Updating a joint\<close>

text \<open>
  C3. The store is well formed and the array holds the keyframe objects \<open>rs\<close>, in which
  any sharing is allowed. For an index \<open>i\<close> of the array, selecting \<open>i\<close> and calling
  \<^verbatim>\<open>updateCurrentFrame\<close> with a joint, an axis and a value returns a state in which
  that axis of that joint of keyframe \<open>i\<close> reads the value and every other axis of every
  joint of every keyframe reads what it read before; no object of the store is written
  and the array keeps its length. After any sequence of such updates an axis reads the
  value written to it last, or its old value where none was written.
\<close>

theorem updateJoint_frame:
  assumes "heap_ok hs" and "frame_refs hs = array_literal (map Elem rs)"
    and "0 \<le> i" and "i < int (length rs)"
    and "\<forall>(i, part, ax, val) \<in> set ws. 0 \<le> i \<and> i < int (length rs)"
  shows "(\<exists>hs'. heap_updateCurrentFrame v part ax val (hs\<lparr>current := i\<rparr>) = Inr hs' \<and>
            (\<exists>cs. store hs' = store hs @ cs) \<and>
            array_length (frame_refs hs') = length rs \<and>
            heap_angle_at hs' i part ax = Some val \<and>
            (\<forall>i' part' ax'. (i', part', ax') \<noteq> (i, part, ax) \<longrightarrow>
               heap_angle_at hs' i' part' ax' = heap_angle_at hs i' part' ax'))
       \<and> (\<exists>hs'. heap_updateJoints v ws hs = Inr hs' \<and>
            (\<exists>cs. store hs' = store hs @ cs) \<and>
            (\<forall>i part ax. heap_angle_at hs' i part ax =
               (case last_written ws i part ax of
                  Some x \<Rightarrow> Some x | None \<Rightarrow> heap_angle_at hs i part ax)))"
proof
  from heap_update_one [OF assms(1-4), of v part ax val]
  obtain hs' where hs': "heap_updateCurrentFrame v part ax val (hs\<lparr>current := i\<rparr>) = Inr hs'"
    "\<exists>cs. store hs' = store hs @ cs" "array_length (frame_refs hs') = length rs"
    "\<And>i' part' ax'. heap_angle_at hs' i' part' ax' =
               (if i' = i \<and> part' = part \<and> ax' = ax then Some val
                else heap_angle_at hs i' part' ax')"
    by blast
  show "\<exists>hs'. heap_updateCurrentFrame v part ax val (hs\<lparr>current := i\<rparr>) = Inr hs' \<and>
            (\<exists>cs. store hs' = store hs @ cs) \<and>
            array_length (frame_refs hs') = length rs \<and>
            heap_angle_at hs' i part ax = Some val \<and>
            (\<forall>i' part' ax'. (i', part', ax') \<noteq> (i, part, ax) \<longrightarrow>
               heap_angle_at hs' i' part' ax' = heap_angle_at hs i' part' ax')"
    using hs' by (intro exI [of _ hs']) auto
next
  show "\<exists>hs'. heap_updateJoints v ws hs = Inr hs' \<and>
            (\<exists>cs. store hs' = store hs @ cs) \<and>
            (\<forall>i part ax. heap_angle_at hs' i part ax =
               (case last_written ws i part ax of
                  Some x \<Rightarrow> Some x | None \<Rightarrow> heap_angle_at hs i part ax))"
    by (rule heap_update_many [OF assms(1,2,5)])
qed

theorem updateJoint_frame_witness:
  "heap_ok two_keyframes \<and> frame_refs two_keyframes = array_literal (map Elem [5, 6])
   \<and> frame_fields (store two_keyframes) 6 = frame_fields (store two_keyframes) 5
   \<and> (\<exists>hs'. heap_updateCurrentFrame Pages_Animate head axis_x (Finite 30)
               (two_keyframes\<lparr>current := 1\<rparr>) = Inr hs' \<and>
          heap_angle_at hs' 1 head axis_x = Some (Finite 30) \<and>
          heap_angle_at hs' 0 head axis_x = Some (Finite 0) \<and>
          heap_angle_at hs' 1 head axis_y = Some (Finite 0))
   \<and> (\<exists>hs'. heap_updateJoints Pages_Animate
               [(0, left_arm, axis_y, Finite 10), (1, head, axis_x, Finite 45),
                (0, left_arm, axis_y, Finite 20)] two_keyframes = Inr hs' \<and>
          heap_angle_at hs' 0 left_arm axis_y = Some (Finite 20) \<and>
          heap_angle_at hs' 1 head axis_x = Some (Finite 45) \<and>
          heap_angle_at hs' 0 head axis_x = Some (Finite 0))"
proof -
  let ?ws = "[(0, left_arm, axis_y, Finite 10), (1, head, axis_x, Finite 45),
              (0, left_arm, axis_y, Finite 20)]"
  have r: "(0::int) \<le> 1" "(1::int) < int (length [5::nat, 6])"
    "\<forall>(i, part, ax, val) \<in> set ?ws. 0 \<le> i \<and> i < int (length [5::nat, 6])"
    by simp_all
  from updateJoint_frame [OF two_keyframes_ok two_keyframes_refs r, of Pages_Animate head axis_x "Finite 30"]
  obtain hs1 hs2 where
    1: "heap_updateCurrentFrame Pages_Animate head axis_x (Finite 30) (two_keyframes\<lparr>current := 1\<rparr>) = Inr hs1"
      "heap_angle_at hs1 1 head axis_x = Some (Finite 30)"
      "\<And>i' part' ax'. (i', part', ax') \<noteq> (1, head, axis_x) \<Longrightarrow>
         heap_angle_at hs1 i' part' ax' = heap_angle_at two_keyframes i' part' ax'"
    and 2: "heap_updateJoints Pages_Animate ?ws two_keyframes = Inr hs2"
      "\<And>i part ax. heap_angle_at hs2 i part ax =
               (case last_written ?ws i part ax of
                  Some x \<Rightarrow> Some x | None \<Rightarrow> heap_angle_at two_keyframes i part ax)"
    by blast
  have "heap_angle_at hs1 0 head axis_x = Some (Finite 0)"
    "heap_angle_at hs1 1 head axis_y = Some (Finite 0)"
    using 1(3) [of 0 head axis_x] 1(3) [of 1 head axis_y] two_keyframes_shared by simp_all
  moreover have "heap_angle_at hs2 0 left_arm axis_y = Some (Finite 20)"
    "heap_angle_at hs2 1 head axis_x = Some (Finite 45)"
    "heap_angle_at hs2 0 head axis_x = Some (Finite 0)"
    using two_keyframes_shared by (simp_all add: 2(2))
  ultimately show ?thesis
    using 1(1,2) 2(1) two_keyframes_ok two_keyframes_refs two_keyframes_shared(1) by blast
qed

section \<open>Adding a keyframe\<close>




end
